theory Spec2Isabelle
  imports Main "HOL-Library.Sublist" "HOL-Library.AList"
begin

section \<open>Python values used by the two tools\<close>

text \<open>
  The exceptions that the modelled code can raise. An exception that is not caught
  travels out of \<open>main\<close> and ends the process.
\<close>

datatype error =
    ZeroDivisionError
  | ValueError
  | IndexError
  | RuntimeError
  | FileExistsError
  | FileNotFoundError
  | NotADirectoryError
  | IsADirectoryError
  | OSError

text \<open>
  \<open>range(start, stop, step)\<close>: counting up for a positive step, down for a negative
  one, \<open>ValueError\<close> for step 0.
\<close>

function range_up :: "int \<Rightarrow> int \<Rightarrow> int \<Rightarrow> int list" where
  "range_up i stop step =
     (if 0 < step \<and> i < stop then i # range_up (i + step) stop step else [])"
  by pat_completeness auto
termination
  by (relation "measure (\<lambda>(i, stop, step). nat (stop - i))") auto

function range_down :: "int \<Rightarrow> int \<Rightarrow> int \<Rightarrow> int list" where
  "range_down i stop step =
     (if step < 0 \<and> stop < i then i # range_down (i + step) stop step else [])"
  by pat_completeness auto
termination
  by (relation "measure (\<lambda>(i, stop, step). nat (i - stop))") auto

declare range_up.simps [simp del] range_down.simps [simp del]

definition py_range :: "int \<Rightarrow> int \<Rightarrow> int \<Rightarrow> error + int list" where
  "py_range start stop step =
     (if step = 0 then Inl ValueError
      else if 0 < step then Inr (range_up start stop step)
      else Inr (range_down start stop step))"

text \<open>
  \<open>xs[i:j]\<close>: a negative bound counts from the end, and both bounds are clamped to the
  list, so a slice never raises.
\<close>

definition slice_bound :: "'a list \<Rightarrow> int \<Rightarrow> nat" where
  "slice_bound xs i =
     (let len = int (length xs)
      in nat (if i < 0 then max (i + len) 0 else min i len))"

definition py_slice :: "'a list \<Rightarrow> int \<Rightarrow> int \<Rightarrow> 'a list" where
  "py_slice xs i j = take (slice_bound xs j - slice_bound xs i) (drop (slice_bound xs i) xs)"

section \<open>The chunker\<close>

text \<open>
  \<open>chunk_lines\<close> of \<open>orca6-batch-create.py\<close>: one list comprehension, with the floor
  division \<open>len(lines) // n\<close> evaluated first (it raises for \<open>n = 0\<close>).
\<close>

definition chunk_lines1 :: "string list \<Rightarrow> int \<Rightarrow> error + string list list" where
  "chunk_lines1 lines n =
     (if n = 0 then Inl ZeroDivisionError
      else case py_range 0 ((int (length lines) div n) * n) n of
             Inl e \<Rightarrow> Inl e
           | Inr is \<Rightarrow> Inr (map (\<lambda>i. py_slice lines i (i + n)) is))"

text \<open>
  \<open>chunk_lines\<close> of \<open>orca6-batch-prune-create.py\<close>: the same comprehension behind the
  guard \<open>if n <= 0: return []\<close>.
\<close>

definition chunk_lines2 :: "string list \<Rightarrow> int \<Rightarrow> error + string list list" where
  "chunk_lines2 lines n =
     (if n \<le> 0 then Inr []
      else let usable = (int (length lines) div n) * n
           in case py_range 0 usable n of
                Inl e \<Rightarrow> Inl e
              | Inr is \<Rightarrow> Inr (map (\<lambda>i. py_slice lines i (i + n)) is))"

text \<open>What both comprehensions compute for a positive \<open>n\<close>, written with \<open>take\<close> and \<open>drop\<close>.\<close>

definition blocks :: "'a list \<Rightarrow> nat \<Rightarrow> 'a list list" where
  "blocks xs m = map (\<lambda>k. take m (drop (k * m) xs)) [0..<length xs div m]"

section \<open>The selector (second tool)\<close>

text \<open>
  The \<open>while j < remaining\<close> loop of \<open>select_indices\<close>. Taken alone it does not end for
  a stride that is not positive, so it is a partial function: \<open>None\<close> is the run that
  never returns.
\<close>

partial_function (option) stride_loop ::
  "int list \<Rightarrow> int \<Rightarrow> int \<Rightarrow> int \<Rightarrow> int \<Rightarrow> int list option" where
  "stride_loop selected base remaining prune_den j =
     (if j < remaining
      then stride_loop (selected @ [base + j]) base remaining prune_den (j + prune_den)
      else Some selected)"

text \<open>
  \<open>select_indices(total, first_count, prune_den)\<close>; \<open>sorted(set(selected))\<close> is
  \<open>sort (remdups selected)\<close>. The result is \<open>None\<close> if the loop does not return,
  \<open>Some (Inl e)\<close> for a raised exception and \<open>Some (Inr xs)\<close> for a returned list.
\<close>

definition select_indices :: "int \<Rightarrow> int \<Rightarrow> int option \<Rightarrow> (error + int list) option" where
  "select_indices total' first_count prune_den =
     (if total' \<le> 0 then Some (Inr [])
      else let first = max 0 (min first_count total');
               selected = range_up 0 first 1
           in case prune_den of
                None \<Rightarrow> Some (Inr (sort (remdups selected)))
              | Some p \<Rightarrow>
                  (if p \<le> 0 then Some (Inl ValueError)
                   else let remaining = total' - first;
                            base = first
                        in (case stride_loop selected base remaining p 0 of
                              None \<Rightarrow> None
                            | Some selected' \<Rightarrow> Some (Inr (sort (remdups selected'))))))"

section \<open>The file system and the console\<close>

text \<open>
  A path is the list of its components below the working directory; the empty path is the
  working directory itself, which always exists. A file holds its text (what
  \<open>read_text\<close> returns once the encoding is settled) and its permission bits.
\<close>

type_synonym path = "string list"

datatype node = Dir | File string nat

type_synonym filesystem = "(path \<times> node) list"

text \<open>What the tools print, to either stream, without the wording.\<close>

datatype message =
    Error_geometry_not_found path
  | Error_lines_per_geometry
  | Error_first
  | Error_prune
  | Error_value
  | Error_directory_not_empty path
  | Warning_remainder int int int
  | Warning_ignoring int
  | Nothing_to_do
  | Selection_empty
  | Found int int
  | Output_root path
  | Dry_run_folder path
  | Dry_run_write path nat
  | Dry_run_write_executable path
  | Done
  | Done_created nat nat

record world =
  files :: filesystem
  printed :: "message list"

text \<open>The calls by which the tools reach the file system.\<close>

datatype call = Stat | Listdir | Mkdir | Open_read | Open_write | Chmod

text \<open>
  What the tools take from the library and the system and what is not modelled here:
  \<open>Path(value)\<close> (how a string is read as a path), \<open>str.splitlines\<close>, the mode that
  the system gives a newly created file, and the calls that the system, with the files
  that it holds, refuses for a reason that the files as they are here do not show: a name
  that is too long (\<open>ENAMETOOLONG\<close>), a permission that is missing (\<open>EACCES\<close>) and the
  like. Every such call raises \<open>OSError\<close>, which stands for all of its subclasses but
  those that the error type names.
\<close>

record env =
  to_path :: "string \<Rightarrow> path"
  splitlines :: "string \<Rightarrow> string list"
  file_mode :: nat
  refuses :: "call \<Rightarrow> filesystem \<Rightarrow> path \<Rightarrow> bool"

text \<open>What is at a path: nothing, a directory or a file.\<close>

definition lookup :: "filesystem \<Rightarrow> path \<Rightarrow> node option" where
  "lookup fs p = (if p = [] then Some Dir else map_of fs p)"

text \<open>
  A statement runs in a world and either raises or yields a value; the world it leaves
  is kept in both cases, so that what was done before an exception stays done.
\<close>

type_synonym 'a action = "world \<Rightarrow> (error + 'a) \<times> world"

definition succeed :: "'a \<Rightarrow> 'a action" where
  "succeed x w = (Inr x, w)"

definition raise :: "error \<Rightarrow> 'a action" where
  "raise e w = (Inl e, w)"

definition and_then :: "'a action \<Rightarrow> ('a \<Rightarrow> 'b action) \<Rightarrow> 'b action" where
  "and_then m f w = (case m w of (Inl e, w') \<Rightarrow> (Inl e, w') | (Inr x, w') \<Rightarrow> f x w')"

definition print :: "message \<Rightarrow> unit action" where
  "print m w = (Inr (), w\<lparr>printed := printed w @ [m]\<rparr>)"

definition store :: "path \<Rightarrow> node \<Rightarrow> unit action" where
  "store p nd w = (Inr (), w\<lparr>files := AList.update p nd (files w)\<rparr>)"

text \<open>
  \<open>Path.stat\<close> as \<open>Path.exists\<close>, \<open>Path.is_dir\<close> and \<open>Path.is_file\<close> use it: the errors
  that these three ignore (no such entry, not a directory) give \<open>None\<close>, and a call that
  the system refuses raises, since pathlib passes every other error on.
\<close>

definition stat :: "env \<Rightarrow> path \<Rightarrow> node option action" where
  "stat env p w =
     (if refuses env Stat (files w) p then raise OSError w
      else succeed (lookup (files w) p) w)"

definition exists :: "env \<Rightarrow> path \<Rightarrow> bool action" where
  "exists env p = and_then (stat env p) (\<lambda>r. succeed (r \<noteq> None))"

definition is_dir :: "env \<Rightarrow> path \<Rightarrow> bool action" where
  "is_dir env p = and_then (stat env p) (\<lambda>r. succeed (r = Some Dir))"

definition is_file :: "env \<Rightarrow> path \<Rightarrow> bool action" where
  "is_file env p =
     and_then (stat env p) (\<lambda>r. succeed (case r of Some (File c m) \<Rightarrow> True | _ \<Rightarrow> False))"

text \<open>\<open>any(path.iterdir())\<close>: the directory has at least one entry.\<close>

definition any_iterdir :: "env \<Rightarrow> path \<Rightarrow> bool action" where
  "any_iterdir env d w =
     (if refuses env Listdir (files w) d then raise OSError w
      else case lookup (files w) d of
             None \<Rightarrow> raise FileNotFoundError w
           | Some (File c m) \<Rightarrow> raise NotADirectoryError w
           | Some Dir \<Rightarrow> succeed (list_ex (\<lambda>(p, n). p \<noteq> [] \<and> butlast p = d) (files w)) w)"

text \<open>\<open>os.mkdir(p)\<close>: one directory, whose parent has to be there.\<close>

definition os_mkdir :: "env \<Rightarrow> path \<Rightarrow> unit action" where
  "os_mkdir env p w =
     (if refuses env Mkdir (files w) p then raise OSError w
      else if lookup (files w) p \<noteq> None then raise FileExistsError w
      else if lookup (files w) (butlast p) = None then raise FileNotFoundError w
      else if lookup (files w) (butlast p) \<noteq> Some Dir then raise NotADirectoryError w
      else store p Dir w)"

text \<open>
  \<open>Path.mkdir(parents=True, exist_ok=True)\<close>, as pathlib writes it: try \<open>os.mkdir\<close>;
  on \<open>FileNotFoundError\<close> make the parent first and try again (then without
  \<open>parents\<close>); any other \<open>OSError\<close> is passed on unless \<open>self.is_dir()\<close> holds, a test
  that may raise in its turn.
\<close>

definition mkdir_exist_ok :: "env \<Rightarrow> path \<Rightarrow> unit action" where
  "mkdir_exist_ok env p w =
     (case os_mkdir env p w of
        (Inr u, w') \<Rightarrow> (Inr u, w')
      | (Inl e, w') \<Rightarrow>
          if e = FileNotFoundError then (Inl e, w')
          else (case is_dir env p w' of
                  (Inl e', w2) \<Rightarrow> (Inl e', w2)
                | (Inr d, w2) \<Rightarrow> if d then (Inr (), w2) else (Inl e, w2)))"

function mkdir_parents :: "env \<Rightarrow> path \<Rightarrow> unit action" where
  "mkdir_parents env p w =
     (case os_mkdir env p w of
        (Inr u, w') \<Rightarrow> (Inr u, w')
      | (Inl e, w') \<Rightarrow>
          if e = FileNotFoundError then
            (if butlast p = p then (Inl e, w')
             else case mkdir_parents env (butlast p) w' of
                    (Inl e', w1) \<Rightarrow> (Inl e', w1)
                  | (Inr u, w1) \<Rightarrow> mkdir_exist_ok env p w1)
          else (case is_dir env p w' of
                  (Inl e', w2) \<Rightarrow> (Inl e', w2)
                | (Inr d, w2) \<Rightarrow> if d then (Inr (), w2) else (Inl e, w2)))"
  by pat_completeness auto
termination
proof (relation "measure (\<lambda>(env, p, w). length p)")
  show "wf (measure (\<lambda>(env, p, w). length p))" by simp
next
  fix env :: env and p :: path and w x2 :: world and x1 :: "error + unit" and e :: error
  assume "butlast p \<noteq> p"
  then have "p \<noteq> []" by auto
  then show "((env, butlast p, x2), (env, p, w)) \<in> measure (\<lambda>(env, p, w). length p)" by simp
qed

declare mkdir_parents.simps [simp del]

text \<open>\<open>path.read_text(...)\<close> and \<open>path.write_text(content, ...)\<close>, \<open>os.chmod(path, mode)\<close>.\<close>

definition read_text :: "env \<Rightarrow> path \<Rightarrow> string action" where
  "read_text env p w =
     (if refuses env Open_read (files w) p then raise OSError w
      else case lookup (files w) p of
             None \<Rightarrow> raise FileNotFoundError w
           | Some Dir \<Rightarrow> raise IsADirectoryError w
           | Some (File c m) \<Rightarrow> succeed c w)"

definition write_text :: "env \<Rightarrow> path \<Rightarrow> string \<Rightarrow> unit action" where
  "write_text env p content w =
     (if refuses env Open_write (files w) p then raise OSError w
      else case lookup (files w) p of
             Some Dir \<Rightarrow> raise IsADirectoryError w
           | Some (File c m) \<Rightarrow> store p (File content m) w
           | None \<Rightarrow>
               if lookup (files w) (butlast p) = None then raise FileNotFoundError w
               else if lookup (files w) (butlast p) \<noteq> Some Dir then raise NotADirectoryError w
               else store p (File content (file_mode env)) w)"

definition chmod :: "env \<Rightarrow> path \<Rightarrow> nat \<Rightarrow> unit action" where
  "chmod env p mode w =
     (if refuses env Chmod (files w) p then raise OSError w
      else case lookup (files w) p of
             None \<Rightarrow> raise FileNotFoundError w
           | Some Dir \<Rightarrow> succeed () w
           | Some (File c m) \<Rightarrow> store p (File c mode) w)"

section \<open>What the two tools share\<close>

text \<open>\<open>str(idx)\<close> for a non-negative integer: its decimal digits.\<close>

definition digit_char :: "nat \<Rightarrow> char" where
  "digit_char d = char_of (48 + d)"

fun str_nat :: "nat \<Rightarrow> string" where
  "str_nat n = (if n < 10 then [digit_char n] else str_nat (n div 10) @ [digit_char (n mod 10)])"

declare str_nat.simps [simp del]

text \<open>\<open>sep.join(xs)\<close>.\<close>

fun join :: "string \<Rightarrow> string list \<Rightarrow> string" where
  "join sep [] = []"
| "join sep [x] = x"
| "join sep (x # y # ys) = x @ sep @ join sep (y # ys)"

text \<open>\<open>xs[i]\<close>: a negative index counts from the end; out of range it raises.\<close>

definition py_index :: "'a list \<Rightarrow> int \<Rightarrow> error + 'a" where
  "py_index xs i =
     (let len = int (length xs); j = (if i < 0 then i + len else i)
      in if 0 \<le> j \<and> j < len then Inr (xs ! nat j) else Inl IndexError)"

definition lift :: "error + 'a \<Rightarrow> 'a action" where
  "lift r w = (case r of Inl e \<Rightarrow> raise e w | Inr x \<Rightarrow> succeed x w)"

text \<open>
  \<open>read_arg_text_or_file\<close> (first tool) and \<open>read_text_or_file\<close> (second tool) are the
  same function: the content of the file that the value names, or the value itself.
\<close>

definition read_arg_text_or_file :: "env \<Rightarrow> string \<Rightarrow> string action" where
  "read_arg_text_or_file env val =
     (let p = to_path env val
      in and_then (is_file env p) (\<lambda>found. if found then read_text env p else succeed val))"

text \<open>
  The arguments that both tools take, as \<open>argparse\<close> hands them to \<open>main\<close>: \<open>-g\<close>, \<open>-n\<close>
  (an integer already), \<open>-i\<close> and \<open>-s\<close>.
\<close>

record args =
  geometry_list :: string
  lines_per_geometry :: int
  orca_input :: string
  slurm_input :: string

text \<open>How the process ends: \<open>sys.exit(main())\<close>, or status 1 after an uncaught exception.\<close>

definition exit_status :: "error + int \<Rightarrow> int" where
  "exit_status r = (case r of Inl e \<Rightarrow> 1 | Inr code \<Rightarrow> code)"

section \<open>The first tool: \<open>orca6-batch-create.py\<close>\<close>

text \<open>
  \<open>build_cleanup_script\<close>; the dash of its second line is given by its UTF-8 bytes.
\<close>

definition build_cleanup_script1 :: string where
  \<open>build_cleanup_script1 = concat
     [''#!/usr/bin/env bash\<newline>'',
      ''# cleanup.sh '', [CHR 0xE2, CHR 0x80, CHR 0x94],
        '' remove common ORCA scratch/intermediate files safely.\<newline>'',
      ''# Adjust patterns as needed; by default we keep *.out, *.xyz, *.gbw.\<newline>'',
      ''\<newline>'',
      ''set -euo pipefail\<newline>'',
      ''\<newline>'',
      ''# Patterns that are generally safe to delete (review for your case):\<newline>'',
      ''patterns=(\<newline>'',
      ''  "*.tmp"\<newline>'',
      ''  "*.trj"\<newline>'',
      ''  "*.pc_*.xyz"\<newline>'',
      ''  "*.engrad"\<newline>'',
      ''  "*.hess"\<newline>'',
      ''  "*.molden.input"\<newline>'',
      ''  "*.mdci"\<newline>'',
      ''  "*.mdprop"\<newline>'',
      ''  "orca.*"\<newline>'',
      ''  "scratch"\<newline>'',
      ''  "tmp"\<newline>'',
      '')\<newline>'',
      ''\<newline>'',
      ''shopt -s nullglob\<newline>'',
      ''for p in "${patterns[@]}"; do\<newline>'',
      ''  rm -rf $p\<newline>'',
      ''done\<newline>'',
      ''\<newline>'',
      ''echo "Cleanup done."\<newline>'']\<close>

text \<open>The first tool adds \<open>-o/--out\<close> (default \<open>.\<close>), \<open>--force\<close> and \<open>--dry-run\<close>.\<close>

record args1 = args +
  out :: string
  force :: bool
  dry_run :: bool

text \<open>\<open>write_file\<close> (lines 68 to 72); the mode \<open>0o755\<close> is 493.\<close>

definition write_file1 :: "env \<Rightarrow> path \<Rightarrow> string \<Rightarrow> bool \<Rightarrow> unit action" where
  "write_file1 env p content make_executable =
     and_then (write_text env p content) (\<lambda>_.
       if make_executable then chmod env p 493 else succeed ())"

text \<open>
  \<open>ensure_dir\<close> (lines 111 to 130): both of its \<open>raise RuntimeError(...)\<close> are the one
  error here, the message left out.
\<close>

definition ensure_dir :: "env \<Rightarrow> path \<Rightarrow> bool \<Rightarrow> unit action" where
  "ensure_dir env p force' =
     and_then (exists env p) (\<lambda>found.
       if \<not> found then mkdir_parents env p
       else and_then (is_dir env p) (\<lambda>dir.
         if \<not> dir then raise RuntimeError
         else and_then (any_iterdir env p) (\<lambda>used.
           if used then (if \<not> force' then raise RuntimeError else succeed ())
           else succeed ())))"

text \<open>The body of the loop \<open>for idx, chunk in enumerate(chunks, start=1)\<close>.\<close>

definition loop1_body ::
  "env \<Rightarrow> 'a args1_scheme \<Rightarrow> path \<Rightarrow> string \<Rightarrow> string \<Rightarrow> string
     \<Rightarrow> nat \<Rightarrow> string list \<Rightarrow> unit action" where
  "loop1_body env a out_root orca_text slurm_text cleanup_text idx chunk =
     (let subdir = out_root @ [str_nat idx]
      in and_then (if dry_run a then print (Dry_run_folder subdir)
                   else ensure_dir env subdir (force a)) (\<lambda>_.
         let geom_content = join ''\<newline>'' chunk @ ''\<newline>'';
             geom_path = subdir @ [''geometry.xyz''];
             orca_path = subdir @ [''orca6.inp''];
             slurm_path = subdir @ [''job.slurm''];
             cleanup_path = subdir @ [''cleanup.sh'']
         in if dry_run a then
              and_then (print (Dry_run_write geom_path (length chunk))) (\<lambda>_.
              and_then (print (Dry_run_write orca_path (length orca_text))) (\<lambda>_.
              and_then (print (Dry_run_write slurm_path (length slurm_text))) (\<lambda>_.
              print (Dry_run_write_executable cleanup_path))))
            else
              and_then (write_file1 env geom_path geom_content False) (\<lambda>_.
              and_then (write_file1 env orca_path orca_text False) (\<lambda>_.
              and_then (write_file1 env slurm_path slurm_text False) (\<lambda>_.
              write_file1 env cleanup_path cleanup_text True)))))"

text \<open>The loop itself, from index \<open>idx\<close> on.\<close>

fun loop1 ::
  "env \<Rightarrow> 'a args1_scheme \<Rightarrow> path \<Rightarrow> string \<Rightarrow> string \<Rightarrow> string
     \<Rightarrow> nat \<Rightarrow> string list list \<Rightarrow> unit action" where
  "loop1 env a out_root orca_text slurm_text cleanup_text idx [] = succeed ()"
| "loop1 env a out_root orca_text slurm_text cleanup_text idx (chunk # rest) =
     and_then (loop1_body env a out_root orca_text slurm_text cleanup_text idx chunk) (\<lambda>_.
       loop1 env a out_root orca_text slurm_text cleanup_text (Suc idx) rest)"

text \<open>\<open>main\<close> of the first tool (lines 170 to 244), from the parsed arguments on.\<close>

definition main1 :: "env \<Rightarrow> 'a args1_scheme \<Rightarrow> int action" where
  "main1 env a =
     (let geom_list_path = to_path env (geometry_list a)
      in and_then (is_file env geom_list_path) (\<lambda>found.
         if \<not> found then
           and_then (print (Error_geometry_not_found geom_list_path)) (\<lambda>_. succeed 2)
         else if lines_per_geometry a \<le> 0 then
           and_then (print Error_lines_per_geometry) (\<lambda>_. succeed 2)
         else
           (let out_root = to_path env (out a)
            in and_then (mkdir_parents env out_root) (\<lambda>_.
               and_then (read_text env geom_list_path) (\<lambda>raw.
               let lines = splitlines env raw;
                   n = lines_per_geometry a
               in and_then (lift (chunk_lines1 lines n)) (\<lambda>chunks.
               let total_lines = int (length lines);
                   total_chunks = int (length chunks);
                   remainder = total_lines - total_chunks * n
               in and_then (if remainder \<noteq> 0
                            then print (Warning_remainder total_lines n remainder)
                            else succeed ()) (\<lambda>_.
               and_then (read_arg_text_or_file env (orca_input a)) (\<lambda>orca_text.
               and_then (read_arg_text_or_file env (slurm_input a)) (\<lambda>slurm_text.
               let cleanup_text = build_cleanup_script1
               in if total_chunks = 0 then
                    and_then (print Nothing_to_do) (\<lambda>_. succeed 0)
                  else
                    and_then (print (Found total_chunks n)) (\<lambda>_.
                    and_then (print (Output_root out_root)) (\<lambda>_.
                    and_then (loop1 env a out_root orca_text slurm_text cleanup_text 1 chunks)
                      (\<lambda>_.
                    and_then (print Done) (\<lambda>_. succeed 0)))))))))))))"

section \<open>The second tool: \<open>orca6-batch-prune-create.py\<close>\<close>

text \<open>
  \<open>build_cleanup_script\<close> of the second tool; the bytes after \<open>cleanup.sh\<close> in its second
  line are the UTF-8 form of the three characters that the source file has there.
\<close>

definition build_cleanup_script2 :: string where
  \<open>build_cleanup_script2 = concat
     [''#!/usr/bin/env bash\<newline>'',
      ''# cleanup.sh '', [CHR 0xC3, CHR 0xA2, CHR 0xE2, CHR 0x82, CHR 0xAC, CHR 0xE2, CHR 0x80, CHR 0x9D],
        '' remove common ORCA scratch/intermediate files safely.\<newline>'',
      ''# Adjust patterns as needed; by default we keep *.out, *.xyz, *.gbw.\<newline>'',
      ''\<newline>'',
      ''set -euo pipefail\<newline>'',
      ''\<newline>'',
      ''patterns=(\<newline>'',
      ''  "*.tmp"\<newline>'',
      ''  "*.trj"\<newline>'',
      ''  "*.pc_*.xyz"\<newline>'',
      ''  "*.engrad"\<newline>'',
      ''  "*.hess"\<newline>'',
      ''  "*.molden.input"\<newline>'',
      ''  "*.mdci"\<newline>'',
      ''  "*.mdprop"\<newline>'',
      ''  "orca.*"\<newline>'',
      ''  "scratch"\<newline>'',
      ''  "tmp"\<newline>'',
      '')\<newline>'',
      ''\<newline>'',
      ''shopt -s nullglob\<newline>'',
      ''for p in "${patterns[@]}"; do\<newline>'',
      ''  rm -rf $p\<newline>'',
      ''done\<newline>'',
      ''\<newline>'',
      ''echo "Cleanup done."\<newline>'']\<close>

text \<open>The second tool adds \<open>-first\<close> and the optional \<open>-prune\<close>.\<close>

record args2 = args +
  first :: int
  prune :: "int option"

text \<open>\<open>write_file\<close> (lines 63 to 67), which makes the parent directory first.\<close>

definition write_file2 :: "env \<Rightarrow> path \<Rightarrow> string \<Rightarrow> bool \<Rightarrow> unit action" where
  "write_file2 env p content make_executable =
     and_then (mkdir_parents env (butlast p)) (\<lambda>_.
     and_then (write_text env p content) (\<lambda>_.
       if make_executable then chmod env p 493 else succeed ()))"

text \<open>
  The body of the loop \<open>for ord_idx, geom_idx in enumerate(indices, start=1)\<close>
  (lines 200 to 215). It yields \<open>Some code\<close> when it returns from \<open>main\<close> and \<open>None\<close>
  when it runs to its end; \<open>writes\<close> is what follows the \<open>if\<close> statement (lines 211 to
  215), reached from two of its branches.
\<close>

definition loop2_body ::
  "env \<Rightarrow> string list list \<Rightarrow> string \<Rightarrow> string \<Rightarrow> string
     \<Rightarrow> nat \<Rightarrow> int \<Rightarrow> int option action" where
  "loop2_body env chunks orca_text slurm_text cleanup_text ord_idx geom_idx =
     (let subdir = [str_nat ord_idx];
          writes =
            and_then (lift (py_index chunks geom_idx)) (\<lambda>chunk.
            let geom_content = join ''\<newline>'' chunk @ ''\<newline>''
            in and_then (write_file2 env (subdir @ [''geometry.xyz'']) geom_content False) (\<lambda>_.
               and_then (write_file2 env (subdir @ [''orca6.inp'']) orca_text False) (\<lambda>_.
               and_then (write_file2 env (subdir @ [''job.slurm'']) slurm_text False) (\<lambda>_.
               and_then (write_file2 env (subdir @ [''cleanup.sh'']) cleanup_text True) (\<lambda>_.
               succeed None)))))
      in and_then (exists env subdir) (\<lambda>found.
         and_then (if found then is_dir env subdir else succeed False) (\<lambda>dir.
           if dir then
             and_then (any_iterdir env subdir) (\<lambda>used.
               if used then
                 and_then (print (Error_directory_not_empty subdir)) (\<lambda>_. succeed (Some 2))
               else writes)
           else and_then (mkdir_parents env subdir) (\<lambda>_. writes))))"

text \<open>The loop itself, from \<open>ord_idx\<close> on.\<close>

fun loop2 ::
  "env \<Rightarrow> string list list \<Rightarrow> string \<Rightarrow> string \<Rightarrow> string
     \<Rightarrow> nat \<Rightarrow> int list \<Rightarrow> int option action" where
  "loop2 env chunks orca_text slurm_text cleanup_text ord_idx [] = succeed None"
| "loop2 env chunks orca_text slurm_text cleanup_text ord_idx (geom_idx # rest) =
     and_then (loop2_body env chunks orca_text slurm_text cleanup_text ord_idx geom_idx) (\<lambda>r.
       case r of
         Some code \<Rightarrow> succeed (Some code)
       | None \<Rightarrow> loop2 env chunks orca_text slurm_text cleanup_text (Suc ord_idx) rest)"

text \<open>
  \<open>main\<close> of the second tool (lines 148 to 218), from the parsed arguments on. The
  result is \<open>None\<close> if \<open>select_indices\<close> does not return; \<open>except ValueError\<close> catches
  that exception alone.
\<close>

definition main2 :: "env \<Rightarrow> 'a args2_scheme \<Rightarrow> world \<Rightarrow> ((error + int) \<times> world) option" where
  "main2 env a w =
     (let geom_list_path = to_path env (geometry_list a)
      in case is_file env geom_list_path w of
           (Inl e, w0) \<Rightarrow> Some (Inl e, w0)
         | (Inr found, w0) \<Rightarrow>
         if \<not> found then
           Some (and_then (print (Error_geometry_not_found geom_list_path)) (\<lambda>_. succeed 2) w0)
         else if lines_per_geometry a \<le> 0 then
           Some (and_then (print Error_lines_per_geometry) (\<lambda>_. succeed 2) w0)
         else if first a < 0 then
           Some (and_then (print Error_first) (\<lambda>_. succeed 2) w0)
         else if prune a \<noteq> None \<and> the (prune a) \<le> 0 then
           Some (and_then (print Error_prune) (\<lambda>_. succeed 2) w0)
         else
           (case read_text env geom_list_path w0 of
              (Inl e, w1) \<Rightarrow> Some (Inl e, w1)
            | (Inr raw, w1) \<Rightarrow>
               (let lines = splitlines env raw
                in case chunk_lines2 lines (lines_per_geometry a) of
                     Inl e \<Rightarrow> Some (Inl e, w1)
                   | Inr chunks \<Rightarrow>
                      (let total' = int (length chunks)
                       in if total' = 0 then
                            Some (and_then (print Nothing_to_do) (\<lambda>_. succeed 0) w1)
                          else
                            (let remainder_lines =
                                   int (length lines) - total' * lines_per_geometry a;
                                 w2 = (if remainder_lines \<noteq> 0
                                       then snd (print (Warning_ignoring remainder_lines) w1)
                                       else w1)
                             in case select_indices total' (first a) (prune a) of
                                  None \<Rightarrow> None
                                | Some (Inl e) \<Rightarrow>
                                    if e = ValueError
                                    then Some (and_then (print Error_value) (\<lambda>_. succeed 2) w2)
                                    else Some (Inl e, w2)
                                | Some (Inr indices) \<Rightarrow>
                                    if indices = [] then
                                      Some (and_then (print Selection_empty) (\<lambda>_. succeed 0) w2)
                                    else
                                      Some (
                                        and_then (read_arg_text_or_file env (orca_input a))
                                          (\<lambda>orca_text.
                                        and_then (read_arg_text_or_file env (slurm_input a))
                                          (\<lambda>slurm_text.
                                        let cleanup_text = build_cleanup_script2
                                        in and_then (loop2 env chunks orca_text slurm_text
                                                       cleanup_text 1 indices) (\<lambda>r.
                                           case r of
                                             Some code \<Rightarrow> succeed code
                                           | None \<Rightarrow>
                                               and_then (print (Done_created (length indices)
                                                                  (length chunks)))
                                                 (\<lambda>_. succeed 0)))) w2))))))"

section \<open>Notions for the statements and their proofs\<close>

text \<open>The text of the file at a path, if there is a file.\<close>

definition file_content :: "filesystem \<Rightarrow> path \<Rightarrow> string option" where
  "file_content fs p = (case lookup fs p of Some (File c m) \<Rightarrow> Some c | _ \<Rightarrow> None)"

text \<open>
  From \<open>w\<close> to \<open>w'\<close> nothing has changed but for new directories, at \<open>p\<close> or above it,
  where there was nothing.
\<close>

definition adds_dirs :: "path \<Rightarrow> world \<Rightarrow> world \<Rightarrow> bool" where
  "adds_dirs p w w' =
     (\<forall>q. lookup (files w') q = lookup (files w) q
        \<or> (lookup (files w) q = None \<and> lookup (files w') q = Some Dir \<and> prefix q p))"

text \<open>From \<open>w\<close> to \<open>w'\<close> whatever existed outside the paths \<open>T\<close> is as it was.\<close>

definition keeps :: "path set \<Rightarrow> world \<Rightarrow> world \<Rightarrow> bool" where
  "keeps T w w' =
     (\<forall>q. q \<notin> T \<longrightarrow> lookup (files w) q \<noteq> None \<longrightarrow> lookup (files w') q = lookup (files w) q)"

text \<open>A statement whose every run keeps what lies outside \<open>T\<close>.\<close>

definition frame :: "path set \<Rightarrow> 'a action \<Rightarrow> bool" where
  "frame T m = (\<forall>w r w'. m w = (r, w') \<longrightarrow> keeps T w w')"

text \<open>The entries of a directory, and those of all job directories from an index on.\<close>

definition under :: "path \<Rightarrow> path set" where
  "under d = {d @ [nm] | nm. True}"

definition from_index :: "path \<Rightarrow> nat \<Rightarrow> path set" where
  "from_index root idx = (\<Union>j \<in> {idx..}. under (root @ [str_nat j]))"

text \<open>What \<open>read_arg_text_or_file\<close> yields, read off the file system.\<close>

definition resolved_text :: "env \<Rightarrow> filesystem \<Rightarrow> string \<Rightarrow> string" where
  "resolved_text env fs val =
     (case file_content fs (to_path env val) of Some c \<Rightarrow> c | None \<Rightarrow> val)"

text \<open>Whether \<open>read_arg_text_or_file\<close> raises: one of its two calls is refused.\<close>

definition unreadable :: "env \<Rightarrow> filesystem \<Rightarrow> string \<Rightarrow> bool" where
  "unreadable env fs val =
     (refuses env Stat fs (to_path env val)
      \<or> (file_content fs (to_path env val) \<noteq> None
          \<and> refuses env Open_read fs (to_path env val)))"

text \<open>
  Two stretches of the first tool's \<open>main\<close>: from the count of the lines on (lines 193 to
  244), and from the message \<open>Found ...\<close> on (lines 212 to 244).
\<close>

definition main1_tail ::
  "env \<Rightarrow> 'a args1_scheme \<Rightarrow> string list list \<Rightarrow> string \<Rightarrow> string \<Rightarrow> int action" where
  "main1_tail env a chunks orca_text slurm_text =
     and_then (print (Found (int (length chunks)) (lines_per_geometry a))) (\<lambda>_.
     and_then (print (Output_root (to_path env (out a)))) (\<lambda>_.
     and_then (loop1 env a (to_path env (out a)) orca_text slurm_text
                 build_cleanup_script1 1 chunks) (\<lambda>_.
     and_then (print Done) (\<lambda>_. succeed 0))))"

definition main1_rest ::
  "env \<Rightarrow> 'a args1_scheme \<Rightarrow> string list \<Rightarrow> string list list \<Rightarrow> int action" where
  "main1_rest env a lines chunks =
     and_then (if int (length lines) - int (length chunks) * lines_per_geometry a \<noteq> 0
               then print (Warning_remainder (int (length lines)) (lines_per_geometry a)
                      (int (length lines) - int (length chunks) * lines_per_geometry a))
               else succeed ()) (\<lambda>_.
     and_then (read_arg_text_or_file env (orca_input a)) (\<lambda>orca_text.
     and_then (read_arg_text_or_file env (slurm_input a)) (\<lambda>slurm_text.
       if chunks = [] then and_then (print Nothing_to_do) (\<lambda>_. succeed 0)
       else main1_tail env a chunks orca_text slurm_text)))"

text \<open>A statement that never raises and leaves the files alone.\<close>

definition harmless :: "'a action \<Rightarrow> bool" where
  "harmless m = (\<forall>w. \<exists>x w'. m w = (Inr x, w') \<and> files w' = files w)"

definition yields :: "'a \<Rightarrow> 'a action \<Rightarrow> bool" where
  "yields x m = (\<forall>w. \<exists>w'. m w = (Inr x, w') \<and> files w' = files w)"

text \<open>The part of the second tool's loop body that comes after the directory check.\<close>

definition loop2_writes ::
  "env \<Rightarrow> string list list \<Rightarrow> string \<Rightarrow> string \<Rightarrow> string
     \<Rightarrow> nat \<Rightarrow> int \<Rightarrow> int option action" where
  "loop2_writes env chunks orca_text slurm_text cleanup_text ord_idx geom_idx =
     and_then (lift (py_index chunks geom_idx)) (\<lambda>chunk.
     and_then (write_file2 env [str_nat ord_idx, ''geometry.xyz'']
                 (join ''\<newline>'' chunk @ ''\<newline>'') False) (\<lambda>_.
     and_then (write_file2 env [str_nat ord_idx, ''orca6.inp''] orca_text False) (\<lambda>_.
     and_then (write_file2 env [str_nat ord_idx, ''job.slurm''] slurm_text False) (\<lambda>_.
     and_then (write_file2 env [str_nat ord_idx, ''cleanup.sh''] cleanup_text True) (\<lambda>_.
     succeed None)))))"

subsection \<open>Concrete inputs\<close>

declare stride_loop.simps [code]

text \<open>
  One choice of the library functions, for runs on concrete inputs: relative POSIX paths
  split at \<open>/\<close> (empty components and \<open>.\<close> dropped), texts whose only line break is
  the newline character, and a system that refuses a call for one reason only, the limits
  of Linux on names: a path of more than 4095 bytes, and a component of more than 255
  bytes once the system has walked to it, that is when every component before it names a
  directory.
\<close>

fun split_path :: "string \<Rightarrow> string \<Rightarrow> path" where
  "split_path cur [] = (if cur = [] \<or> cur = ''.'' then [] else [rev cur])"
| "split_path cur (c # cs) =
     (if c = CHR ''/''
      then (if cur = [] \<or> cur = ''.'' then split_path [] cs else rev cur # split_path [] cs)
      else split_path (c # cur) cs)"

fun split_newline :: "string \<Rightarrow> string \<Rightarrow> string list" where
  "split_newline cur [] = (if cur = [] then [] else [rev cur])"
| "split_newline cur (c # cs) =
     (if c = CHR ''\<newline>'' then rev cur # split_newline [] cs else split_newline (c # cur) cs)"

fun refused :: "filesystem \<Rightarrow> path \<Rightarrow> path \<Rightarrow> bool" where
  "refused fs cur [] = False"
| "refused fs cur (c # cs) =
     (lookup fs cur = Some Dir \<and> (255 < length c \<or> refused fs (cur @ [c]) cs))"

definition name_too_long :: "filesystem \<Rightarrow> path \<Rightarrow> bool" where
  "name_too_long fs p = (4095 < length (join ''/'' p) \<or> refused fs [] p)"

definition posix_env :: env where
  "posix_env = \<lparr>to_path = split_path [], splitlines = split_newline [], file_mode = 420,
     refuses = (\<lambda>c. name_too_long)\<rparr>"

text \<open>A working directory that holds a geometry list of five lines and nothing else.\<close>

definition fresh_world :: world where
  "fresh_world =
     \<lparr>files = [([''geoms.xyz''], File ''a\<newline>b\<newline>c\<newline>d\<newline>e\<newline>'' 420)], printed = []\<rparr>"

text \<open>The same directory after an earlier run has left a job directory \<open>runs/1\<close> and \<open>1\<close>.\<close>

definition used_world :: world where
  "used_world =
     \<lparr>files = [([''geoms.xyz''], File ''a\<newline>b\<newline>c\<newline>d\<newline>e\<newline>'' 420),
               ([''runs''], Dir),
               ([''runs'', ''1''], Dir),
               ([''runs'', ''1'', ''orca6.out''], File ''done'' 420),
               ([''1''], Dir),
               ([''1'', ''orca6.out''], File ''done'' 420)],
       printed = []\<rparr>"

text \<open>Command lines for the two tools.\<close>

definition create_args :: args1 where
  "create_args =
     \<lparr>geometry_list = ''geoms.xyz'', lines_per_geometry = 2, orca_input = ''! HF'',
       slurm_input = ''sbatch'', out = ''runs'', force = False, dry_run = False\<rparr>"

definition prune_args :: args2 where
  "prune_args =
     \<lparr>geometry_list = ''geoms.xyz'', lines_per_geometry = 1, orca_input = ''! HF'',
       slurm_input = ''sbatch'', first = 1, prune = Some 2\<rparr>"

definition dry_args :: args1 where
  "dry_args = create_args\<lparr>dry_run := True\<rparr>"



subsection \<open>The cleanup script of the specification\<close>

text \<open>
  The cleanup-script text of section 6 of the specification, from its first line through
  \<open>echo "Cleanup done."\<close>.
\<close>

definition spec_cleanup_text :: string where
  \<open>spec_cleanup_text = concat
     [''#!/usr/bin/env bash\<newline>'',
      ''set -euo pipefail\<newline>'',
      ''patterns=(\<newline>'',
      ''  "*.tmp" "*.trj" "*.pc_*.xyz" "*.engrad" "*.hess"\<newline>'',
      ''  "*.molden.input" "*.mdci" "*.mdprop" "orca.*" "scratch" "tmp"\<newline>'',
      '')\<newline>'',
      ''shopt -s nullglob\<newline>'',
      ''for p in "${patterns[@]}"; do\<newline>'',
      ''  rm -rf $p\<newline>'',
      ''done\<newline>'',
      ''echo "Cleanup done."'']\<close>

text \<open>
  The words of a shell script: its lines without the comment lines (a \<open>#\<close> in the first
  column, the \<open>#!\<close> line apart), split at blanks and line ends.
\<close>

definition is_comment :: "string \<Rightarrow> bool" where
  "is_comment l = (take 1 l = ''#'' \<and> take 2 l \<noteq> ''#!'')"

fun tokens :: "string \<Rightarrow> string \<Rightarrow> string list" where
  "tokens cur [] = (if cur = [] then [] else [rev cur])"
| "tokens cur (c # cs) =
     (if c = CHR '' '' \<or> c = CHR ''\<newline>''
      then (if cur = [] then tokens [] cs else rev cur # tokens [] cs)
      else tokens (c # cur) cs)"

definition shell_tokens :: "string \<Rightarrow> string list" where
  "shell_tokens t =
     concat (map (tokens []) (filter (\<lambda>l. \<not> is_comment l) (split_newline [] t)))"

section \<open>Properties of the chunker\<close>

lemma range_up_multiples:
  assumes "0 < n" "k \<le> q"
  shows "range_up (int k * n) (int q * n) n = map (\<lambda>j. int j * n) [k..<q]"
  using assms
proof (induction "q - k" arbitrary: k)
  case 0
  then have "k = q" by simp
  then show ?case by (simp add: range_up.simps)
next
  case (Suc d)
  then have lt: "k < q" by simp
  with \<open>0 < n\<close> have "int k * n < int q * n" by simp
  moreover have "int k * n + n = int (Suc k) * n" by (simp add: algebra_simps)
  moreover have "range_up (int (Suc k) * n) (int q * n) n = map (\<lambda>j. int j * n) [Suc k..<q]"
    using Suc.hyps(1)[of "Suc k"] Suc.hyps(2) Suc.prems lt by simp
  ultimately show ?case
    using \<open>0 < n\<close> lt by (subst range_up.simps) (simp add: upt_conv_Cons)
qed

lemma floor_chunks:
  assumes "0 < n"
  shows "int (length xs) div n = int (length xs div nat n)"
proof -
  have "int (length xs div nat n) = int (length xs) div int (nat n)"
    by (rule zdiv_int)
  with assms show ?thesis by simp
qed

lemma slice_bound_nat: "i \<le> length xs \<Longrightarrow> slice_bound xs (int i) = i"
  by (simp add: slice_bound_def)

lemma py_slice_block:
  assumes "0 < n" "k < length xs div nat n"
  shows "py_slice xs (int k * n) (int k * n + n) = take (nat n) (drop (k * nat n) xs)"
proof -
  let ?m = "nat n"
  have m: "int ?m = n" using assms(1) by simp
  have "Suc k \<le> length xs div ?m" using assms(2) by simp
  then have "Suc k * ?m \<le> (length xs div ?m) * ?m" by (rule mult_le_mono1)
  also have "\<dots> \<le> length xs" by (simp add: div_times_less_eq_dividend)
  finally have le: "k * ?m + ?m \<le> length xs" by simp
  then have le0: "k * ?m \<le> length xs" by simp
  have lo: "int k * n = int (k * ?m)" using assms(1) by simp
  have hi: "int k * n + n = int (k * ?m + ?m)" using assms(1) by simp
  have "py_slice xs (int (k * ?m)) (int (k * ?m + ?m)) = take ?m (drop (k * ?m) xs)"
    unfolding py_slice_def slice_bound_nat[OF le] slice_bound_nat[OF le0] by simp
  then show ?thesis unfolding hi[symmetric] lo[symmetric] .
qed

lemma map_slices:
  assumes "0 < n"
  shows "map (\<lambda>i. py_slice xs i (i + n)) (map (\<lambda>j. int j * n) [0..<length xs div nat n])
           = blocks xs (nat n)"
proof -
  have "map (\<lambda>j. py_slice xs (int j * n) (int j * n + n)) [0..<length xs div nat n]
          = map (\<lambda>k. take (nat n) (drop (k * nat n) xs)) [0..<length xs div nat n]"
    by (rule map_cong[OF refl]) (simp add: py_slice_block[OF assms])
  then show ?thesis by (simp only: blocks_def map_map comp_def)
qed

lemma map_slices_comp:
  assumes "0 < n"
  shows "map ((\<lambda>i. py_slice xs i (i + n)) \<circ> (\<lambda>j. int j * n)) [0..<length xs div nat n]
           = blocks xs (nat n)"
  using map_slices[OF assms, of xs] by (simp only: map_map)

lemma range_up_chunks:
  assumes "0 < n"
  shows "range_up 0 (int (length xs) div n * n) n = map (\<lambda>j. int j * n) [0..<length xs div nat n]"
  using range_up_multiples[OF assms, of 0 "length xs div nat n"]
  by (simp add: floor_chunks[OF assms])

lemma chunk_lines1_blocks:
  assumes "0 < n"
  shows "chunk_lines1 xs n = Inr (blocks xs (nat n))"
  using assms
  by (simp add: chunk_lines1_def py_range_def range_up_chunks[OF assms] map_slices_comp[OF assms])

lemma chunk_lines2_blocks:
  assumes "0 < n"
  shows "chunk_lines2 xs n = Inr (blocks xs (nat n))"
  using assms
  by (simp add: chunk_lines2_def py_range_def range_up_chunks[OF assms] map_slices_comp[OF assms])

lemma length_blocks: "length (blocks xs m) = length xs div m"
  by (simp add: blocks_def)

lemma blocks_each_length:
  assumes "0 < m" "c \<in> set (blocks xs m)"
  shows "length c = m"
proof -
  from assms(2) obtain k where k: "k < length xs div m" and c: "c = take m (drop (k * m) xs)"
    by (auto simp: blocks_def)
  have "Suc k \<le> length xs div m" using k by simp
  then have "Suc k * m \<le> (length xs div m) * m" by (rule mult_le_mono1)
  also have "\<dots> \<le> length xs" by (simp add: div_times_less_eq_dividend)
  finally have "k * m + m \<le> length xs" by simp
  then show ?thesis by (simp add: c)
qed

lemma concat_blocks_upto:
  "concat (map (\<lambda>k. take m (drop (k * m) xs)) [0..<q]) = take (q * m) xs"
proof (induction q)
  case 0
  show ?case by simp
next
  case (Suc q)
  have "take (q * m) xs @ take m (drop (q * m) xs) = take (q * m + m) xs"
    by (simp add: take_add)
  with Suc show ?case by (simp add: add.commute)
qed

lemma concat_blocks: "concat (blocks xs m) = take (length xs div m * m) xs"
  by (simp add: blocks_def concat_blocks_upto)

lemma range_down_nonneg: "0 \<le> stop \<Longrightarrow> range_down 0 stop step = []"
  by (simp add: range_down.simps)

lemma chunk_lines1_negative:
  assumes "n < 0"
  shows "chunk_lines1 xs n = Inr []"
proof -
  have "int (length xs) div n \<le> 0"
    using assms by (simp add: div_nonneg_neg_le0)
  then have "0 \<le> (int (length xs) div n) * n"
    using assms by (simp add: mult_nonpos_nonpos)
  then show ?thesis
    using assms by (simp add: chunk_lines1_def py_range_def range_down_nonneg)
qed

text \<open>
  C1. For every list of lines and every \<open>n > 0\<close>, \<open>chunk_lines\<close> (of either tool) returns
  exactly \<open>floor(len(L)/n)\<close> chunks, each of length exactly \<open>n\<close>, whose concatenation in
  order is the prefix of \<open>L\<close> of length \<open>floor(len(L)/n)*n\<close>; in particular the result is
  empty for the empty list and whenever \<open>len(L) < n\<close>.
\<close>

theorem chunk_lines_partition:
  assumes "0 < n"
  shows "\<exists>cs. chunk_lines1 L n = Inr cs \<and> chunk_lines2 L n = Inr cs
           \<and> int (length cs) = int (length L) div n
           \<and> (\<forall>c \<in> set cs. int (length c) = n)
           \<and> concat cs = take (nat (int (length L) div n * n)) L
           \<and> (L = [] \<longrightarrow> cs = [])
           \<and> (int (length L) < n \<longrightarrow> cs = [])"
proof -
  let ?cs = "blocks L (nat n)"
  have m: "0 < nat n" "int (nat n) = n" using assms by simp_all
  have len: "int (length ?cs) = int (length L) div n"
    by (simp add: length_blocks floor_chunks[OF assms])
  have each: "\<forall>c \<in> set ?cs. int (length c) = n"
    using blocks_each_length[OF m(1)] m(2) by fastforce
  have "int (length L) div n * n = int (length L div nat n * nat n)"
    using assms by (simp add: floor_chunks[OF assms])
  then have "nat (int (length L) div n * n) = length L div nat n * nat n"
    by (simp only: nat_int)
  then have cat: "concat ?cs = take (nat (int (length L) div n * n)) L"
    by (simp add: concat_blocks)
  have e1: "L = [] \<longrightarrow> ?cs = []" by (simp add: blocks_def)
  have e2: "int (length L) < n \<longrightarrow> ?cs = []"
    using assms by (auto simp: blocks_def)
  show ?thesis
    using chunk_lines1_blocks[OF assms] chunk_lines2_blocks[OF assms] len each cat e1 e2
    by blast
qed

theorem chunk_lines_partition_witness:
  "(0::int) < 2 \<and>
   (\<exists>cs. chunk_lines1 [''a'', ''b'', ''c'', ''d'', ''e''] 2 = Inr cs
        \<and> chunk_lines2 [''a'', ''b'', ''c'', ''d'', ''e''] 2 = Inr cs
        \<and> int (length cs) = int (length [''a'', ''b'', ''c'', ''d'', ''e'']) div 2
        \<and> (\<forall>c \<in> set cs. int (length c) = 2)
        \<and> concat cs = [''a'', ''b'', ''c'', ''d''])"
  using chunk_lines_partition[of 2 "[''a'', ''b'', ''c'', ''d'', ''e'']"] by simp

text \<open>
  C10. For every list of lines and every \<open>n \<ge> 1\<close> the two tools' \<open>chunk_lines\<close> return
  the same list of chunks; out of contract, for \<open>n \<le> 0\<close>, the second tool returns the
  empty list, and the first tool does not guard its division (it raises at \<open>n = 0\<close>).
\<close>

theorem chunk_lines_agree:
  "(1 \<le> n \<longrightarrow> chunk_lines1 L n = chunk_lines2 L n)
   \<and> (n \<le> 0 \<longrightarrow> chunk_lines2 L n = Inr [])
   \<and> chunk_lines1 L 0 = Inl ZeroDivisionError"
proof (intro conjI impI)
  assume "1 \<le> n"
  then have "0 < n" by simp
  then show "chunk_lines1 L n = chunk_lines2 L n"
    by (simp add: chunk_lines1_blocks chunk_lines2_blocks)
next
  assume "n \<le> 0"
  then show "chunk_lines2 L n = Inr []" by (simp add: chunk_lines2_def)
next
  show "chunk_lines1 L 0 = Inl ZeroDivisionError" by (simp add: chunk_lines1_def)
qed

theorem chunk_lines_agree_witness:
  "(1::int) \<le> 2
   \<and> chunk_lines1 [''a'', ''b'', ''c''] 2 = chunk_lines2 [''a'', ''b'', ''c''] 2
   \<and> chunk_lines2 [''a'', ''b'', ''c''] 2 = Inr [[''a'', ''b'']]
   \<and> (-1::int) \<le> 0
   \<and> chunk_lines2 [''a'', ''b'', ''c''] (-1) = Inr []"
proof -
  have "chunk_lines2 [''a'', ''b'', ''c''] 2 = Inr [[''a'', ''b'']]"
    by (simp add: chunk_lines2_def py_range_def range_up.simps py_slice_def slice_bound_def)
  then show ?thesis
    using chunk_lines_agree[of 2 "[''a'', ''b'', ''c'']"]
      chunk_lines_agree[of "-1" "[''a'', ''b'', ''c'']"]
    by simp
qed

section \<open>Properties of the selector\<close>

lemma stride_loop_returns:
  "0 < P \<Longrightarrow> stride_loop sel base remaining P j
     = Some (sel @ map (\<lambda>i. base + i) (range_up j remaining P))"
proof (induction j remaining P arbitrary: sel rule: range_up.induct)
  case (1 i stop step)
  show ?case
  proof (cases "i < stop")
    case True
    with 1 show ?thesis
      by (subst stride_loop.simps, subst range_up.simps) simp
  next
    case False
    then show ?thesis
      by (subst stride_loop.simps, subst range_up.simps) simp
  qed
qed

lemma range_up_bounds: "x \<in> set (range_up i stop P) \<Longrightarrow> i \<le> x \<and> x < stop"
proof (induction i stop P rule: range_up.induct)
  case (1 i stop step)
  show ?case
  proof (cases "0 < step \<and> i < stop")
    case True
    with 1 show ?thesis
      by (subst (asm) (2) range_up.simps) (auto split: if_splits)
  next
    case False
    with "1.prems" show ?thesis by (subst (asm) range_up.simps) simp
  qed
qed

lemma range_up_strict: "sorted_wrt (<) (range_up i stop P)"
proof (induction i stop P rule: range_up.induct)
  case (1 i stop step)
  show ?case
  proof (cases "0 < step \<and> i < stop")
    case True
    then have "\<forall>x \<in> set (range_up (i + step) stop step). i < x"
      using range_up_bounds[of _ "i + step" stop step] by fastforce
    with True 1 show ?thesis by (subst range_up.simps) simp
  next
    case False
    then show ?thesis by (subst range_up.simps) auto
  qed
qed

lemma range_up_set:
  "0 < P \<Longrightarrow> set (range_up i stop P) = {x. \<exists>k::nat. x = i + int k * P \<and> x < stop}"
proof (induction i stop P rule: range_up.induct)
  case (1 i stop step)
  show ?case
  proof (cases "i < stop")
    case True
    have ih: "set (range_up (i + step) stop step)
                = {x. \<exists>k::nat. x = i + step + int k * step \<and> x < stop}"
      using 1 True by simp
    have "{x. \<exists>k::nat. x = i + int k * step \<and> x < stop}
            = insert i {x. \<exists>k::nat. x = i + step + int k * step \<and> x < stop}"
    proof (intro set_eqI iffI)
      fix x assume "x \<in> {x. \<exists>k::nat. x = i + int k * step \<and> x < stop}"
      then obtain k :: nat where k: "x = i + int k * step" "x < stop" by blast
      show "x \<in> insert i {x. \<exists>k::nat. x = i + step + int k * step \<and> x < stop}"
      proof (cases k)
        case 0
        with k show ?thesis by simp
      next
        case (Suc k')
        with k have "x = i + step + int k' * step" by (simp add: algebra_simps)
        with k(2) show ?thesis by blast
      qed
    next
      fix x assume "x \<in> insert i {x. \<exists>k::nat. x = i + step + int k * step \<and> x < stop}"
      then consider "x = i" | k :: nat where "x = i + step + int k * step" "x < stop" by blast
      then show "x \<in> {x. \<exists>k::nat. x = i + int k * step \<and> x < stop}"
      proof cases
        case 1
        then have "x = i + int 0 * step" by simp
        with 1 True show ?thesis by blast
      next
        case 2
        then have "x = i + int (Suc k) * step" by (simp add: algebra_simps)
        with 2(2) show ?thesis by blast
      qed
    qed
    with ih True "1.prems" show ?thesis by (subst range_up.simps) simp
  next
    case False
    have "\<And>k::nat. \<not> i + int k * step < stop"
    proof -
      fix k :: nat
      have "0 \<le> int k * step" using "1.prems" by simp
      with False show "\<not> i + int k * step < stop" by linarith
    qed
    with False show ?thesis by (subst range_up.simps) auto
  qed
qed

lemma sort_remdups_strict: "sorted_wrt (<) (xs :: int list) \<Longrightarrow> sort (remdups xs) = xs"
  by (simp add: strict_sorted_iff sorted_sort_id)

lemma selected_strict:
  "sorted_wrt (<) (range_up 0 b 1 @ map (\<lambda>i. b + i) (range_up 0 remaining P))"
proof -
  have "sorted_wrt (<) (map (\<lambda>i. b + i) (range_up 0 remaining P))"
    using range_up_strict[of 0 remaining P] by (simp add: sorted_wrt_map)
  moreover have "\<forall>x \<in> set (range_up 0 b 1). \<forall>y \<in> set (range_up 0 remaining P). x < b + y"
    using range_up_bounds[of _ 0 b 1] range_up_bounds[of _ 0 remaining P] by fastforce
  ultimately show ?thesis
    by (simp add: sorted_wrt_append range_up_strict)
qed

lemma select_indices_stride:
  assumes "0 < total'" "0 < P"
  shows "select_indices total' fc (Some P)
           = Some (Inr (range_up 0 (max 0 (min fc total')) 1
                        @ map (\<lambda>i. max 0 (min fc total') + i)
                            (range_up 0 (total' - max 0 (min fc total')) P)))"
  using assms
  by (simp add: select_indices_def Let_def stride_loop_returns sort_remdups_strict selected_strict)

lemma select_indices_prefix:
  assumes "0 < total'"
  shows "select_indices total' fc None = Some (Inr (range_up 0 (max 0 (min fc total')) 1))"
  using assms
  by (simp add: select_indices_def Let_def sort_remdups_strict range_up_strict)

lemma range_up_unit_set: "set (range_up 0 n 1) = {0..<n}"
proof -
  have "\<And>x::int. (\<exists>k::nat. x = int k \<and> x < n) \<longleftrightarrow> 0 \<le> x \<and> x < n"
    by (metis nat_0_le of_nat_0_le_iff)
  then show ?thesis by (simp add: range_up_set) auto
qed

lemma range_up_unit: "range_up 0 n 1 = [0..n - 1]"
proof -
  have "sorted_wrt (<) [0..n - 1]" by (simp add: strict_sorted_iff)
  moreover have "set (range_up 0 n 1) = set [0..n - 1]"
    by (auto simp: range_up_unit_set)
  ultimately show ?thesis
    using range_up_strict[of 0 n 1] by (metis strict_sorted_equal)
qed

lemma select_indices_stride_set:
  assumes "0 \<le> total'" "0 < P"
  shows "\<exists>xs. select_indices total' fc (Some P) = Some (Inr xs)
           \<and> sorted_wrt (<) xs
           \<and> set xs = {0..<max 0 (min fc total')}
                 \<union> {x. \<exists>k::nat. x = max 0 (min fc total') + int k * P \<and> x < total'}"
proof (cases "total' = 0")
  case True
  have "\<And>k::nat. \<not> int k * P < 0"
    using assms(2) by (simp add: not_less)
  with True show ?thesis by (auto simp: select_indices_def)
next
  case False
  with assms(1) have pos: "0 < total'" by simp
  let ?first = "max 0 (min fc total')"
  let ?xs = "range_up 0 ?first 1 @ map (\<lambda>i. ?first + i) (range_up 0 (total' - ?first) P)"
  have "set (map (\<lambda>i. ?first + i) (range_up 0 (total' - ?first) P))
          = {x. \<exists>k::nat. x = ?first + int k * P \<and> x < total'}"
    by (auto simp: range_up_set[OF assms(2)])
  then have "set ?xs = {0..<?first} \<union> {x. \<exists>k::nat. x = ?first + int k * P \<and> x < total'}"
    by (simp only: set_append range_up_unit_set)
  with select_indices_stride[OF pos assms(2), of fc] selected_strict[of ?first "total' - ?first" P]
  show ?thesis by blast
qed

text \<open>
  C2. For \<open>total \<ge> 0\<close>, any \<open>first_count\<close> and a positive prune denominator \<open>P\<close>,
  \<open>select_indices\<close> returns, in increasing order, the union of the clamped prefix
  \<open>[0, first)\<close>, \<open>first = clamp(first_count, 0, total)\<close>, with the stride sample
  \<open>first, first+P, first+2P, ...\<close> of the indices below \<open>total\<close>; for
  \<open>first_count \<ge> total\<close> the stride adds nothing;
  \<open>select_indices(10, 2, 3) = [0, 1, 2, 5, 8]\<close> and \<open>select_indices(10, 0, 3) = [0, 3, 6, 9]\<close>.
\<close>

theorem select_indices_prefix_and_stride:
  "(0 \<le> total' \<and> 0 < P \<longrightarrow>
      (\<exists>xs. select_indices total' fc (Some P) = Some (Inr xs)
         \<and> sorted_wrt (<) xs
         \<and> set xs = {0..<max 0 (min fc total')}
               \<union> {x. \<exists>k::nat. x = max 0 (min fc total') + int k * P \<and> x < total'}
         \<and> (total' \<le> fc \<longrightarrow> xs = [0..total' - 1])))
   \<and> select_indices 10 2 (Some 3) = Some (Inr [0, 1, 2, 5, 8])
   \<and> select_indices 10 0 (Some 3) = Some (Inr [0, 3, 6, 9])"
proof (intro conjI impI)
  assume a: "0 \<le> total' \<and> 0 < P"
  then obtain xs where xs: "select_indices total' fc (Some P) = Some (Inr xs)"
      "sorted_wrt (<) xs"
      "set xs = {0..<max 0 (min fc total')}
         \<union> {x. \<exists>k::nat. x = max 0 (min fc total') + int k * P \<and> x < total'}"
    using select_indices_stride_set[of total' P fc] by blast
  have "xs = [0..total' - 1]" if "total' \<le> fc"
  proof -
    have first: "max 0 (min fc total') = total'" using that a by simp
    have "\<And>k::nat. \<not> total' + int k * P < total'"
      using a by (simp add: not_less)
    then have "set xs = set [0..total' - 1]"
      unfolding xs(3) first by auto
    moreover have "sorted_wrt (<) [0..total' - 1]" by (simp add: strict_sorted_iff)
    ultimately show ?thesis using xs(2) by (metis strict_sorted_equal)
  qed
  with xs show "\<exists>xs. select_indices total' fc (Some P) = Some (Inr xs)
         \<and> sorted_wrt (<) xs
         \<and> set xs = {0..<max 0 (min fc total')}
               \<union> {x. \<exists>k::nat. x = max 0 (min fc total') + int k * P \<and> x < total'}
         \<and> (total' \<le> fc \<longrightarrow> xs = [0..total' - 1])"
    by blast
next
  show "select_indices 10 2 (Some 3) = Some (Inr [0, 1, 2, 5, 8])"
    by (simp add: select_indices_stride range_up.simps)
next
  show "select_indices 10 0 (Some 3) = Some (Inr [0, 3, 6, 9])"
    by (simp add: select_indices_stride range_up.simps)
qed

theorem select_indices_prefix_and_stride_witness:
  "(0::int) \<le> 7 \<and> (0::int) < 2 \<and> (7::int) \<le> 9
   \<and> (\<exists>xs. select_indices 7 9 (Some 2) = Some (Inr xs) \<and> xs = [0..7 - 1])
   \<and> select_indices 7 9 (Some 2) = Some (Inr [0, 1, 2, 3, 4, 5, 6])"
proof -
  have "[0..(6::int)] = [0, 1, 2, 3, 4, 5, 6]" by (simp add: upto.simps)
  then show ?thesis
    using select_indices_prefix_and_stride[of 7 2 9] by auto
qed

text \<open>
  C3. For \<open>total \<ge> 0\<close> and any \<open>first_count\<close>, without a prune denominator
  \<open>select_indices\<close> returns exactly the range \<open>[0, clamp(first_count, 0, total))\<close>.
\<close>

theorem select_indices_without_prune:
  assumes "0 \<le> total'"
  shows "select_indices total' fc None = Some (Inr [0..max 0 (min fc total') - 1])"
proof (cases "total' = 0")
  case True
  then show ?thesis by (simp add: select_indices_def)
next
  case False
  with assms have "0 < total'" by simp
  then show ?thesis by (simp only: select_indices_prefix range_up_unit)
qed

theorem select_indices_without_prune_witness:
  "(0::int) \<le> 10 \<and> select_indices 10 4 None = Some (Inr [0, 1, 2, 3])"
proof -
  have "[0..(3::int)] = [0, 1, 2, 3]" by (simp add: upto.simps)
  then show ?thesis
    using select_indices_without_prune[of 10 4] by simp
qed

text \<open>
  C4. For every valid input (\<open>total \<ge> 0\<close>, any \<open>first_count\<close>, prune denominator absent
  or positive) \<open>select_indices\<close> returns a list (it neither raises nor runs forever) that
  is fixed by the arguments; the list is strictly increasing, hence sorted and free of
  duplicates, and all its elements lie in \<open>[0, total)\<close>.
\<close>

theorem select_indices_increasing_in_range:
  assumes "0 \<le> total'" "pr = None \<or> (\<exists>p. pr = Some p \<and> 0 < p)"
  shows "\<exists>xs. select_indices total' fc pr = Some (Inr xs)
           \<and> sorted_wrt (<) xs \<and> sorted xs \<and> distinct xs
           \<and> (\<forall>i \<in> set xs. 0 \<le> i \<and> i < total')"
proof -
  let ?first = "max 0 (min fc total')"
  have first: "0 \<le> ?first" "?first \<le> total'" using assms(1) by simp_all
  from assms(2) show ?thesis
  proof
    assume "pr = None"
    moreover have "select_indices total' fc None = Some (Inr [0..?first - 1])"
    proof (cases "total' = 0")
      case True
      then show ?thesis by (simp add: select_indices_def)
    next
      case False
      with assms(1) have "0 < total'" by simp
      then show ?thesis by (simp only: select_indices_prefix range_up_unit)
    qed
    moreover have "sorted_wrt (<) [0..?first - 1]" by (simp add: strict_sorted_iff)
    moreover have "sorted [0..?first - 1]" "distinct [0..?first - 1]" by simp_all
    moreover have "\<forall>i \<in> set [0..?first - 1]. 0 \<le> i \<and> i < total'"
    proof
      fix i assume "i \<in> set [0..?first - 1]"
      then have "0 \<le> i" "i < ?first" by simp_all
      with first(2) show "0 \<le> i \<and> i < total'" by linarith
    qed
    ultimately show ?thesis by blast
  next
    assume "\<exists>p. pr = Some p \<and> 0 < p"
    then obtain p where p: "pr = Some p" "0 < p" by blast
    obtain xs where xs: "select_indices total' fc (Some p) = Some (Inr xs)"
        "sorted_wrt (<) xs"
        "set xs = {0..<?first} \<union> {x. \<exists>k::nat. x = ?first + int k * p \<and> x < total'}"
      using select_indices_stride_set[OF assms(1) p(2), of fc] by blast
    have "\<forall>i \<in> set xs. 0 \<le> i \<and> i < total'"
    proof
      fix i assume "i \<in> set xs"
      then consider "0 \<le> i" "i < ?first"
        | k :: nat where "i = ?first + int k * p" "i < total'"
        unfolding xs(3) by auto
      then show "0 \<le> i \<and> i < total'"
      proof cases
        case 1
        with first show ?thesis by linarith
      next
        case 2
        have "0 \<le> int k * p" using p(2) by simp
        with 2 first show ?thesis by linarith
      qed
    qed
    then have inr: "\<forall>i \<in> set xs. 0 \<le> i \<and> i < total'" .
    have "sorted xs" "distinct xs" using xs(2) by (simp_all add: strict_sorted_iff)
    with xs(1,2) inr show ?thesis unfolding p(1) by blast
  qed
qed

theorem select_indices_increasing_in_range_witness:
  "(0::int) \<le> 10 \<and> (Some 4 = (None :: int option) \<or> (\<exists>p::int. Some 4 = Some p \<and> 0 < p))
   \<and> (\<exists>xs. select_indices 10 3 (Some 4) = Some (Inr xs)
         \<and> sorted_wrt (<) xs \<and> sorted xs \<and> distinct xs
         \<and> (\<forall>i \<in> set xs. 0 \<le> i \<and> i < 10))"
  using select_indices_increasing_in_range[of 10 "Some 4" 3] by simp

section \<open>Frame lemmas\<close>

lemma lookup_update:
  "p \<noteq> [] \<Longrightarrow> lookup (AList.update p nd fs) q = (if q = p then Some nd else lookup fs q)"
  by (simp add: lookup_def update_conv')

lemma and_then_cases:
  assumes "and_then m f w = (r, w'')"
  obtains (raised) e where "m w = (Inl e, w'')" "r = Inl e"
        | (went_on) x w' where "m w = (Inr x, w')" "f x w' = (r, w'')"
  using assms by (auto simp: and_then_def split: prod.splits sum.splits)

lemma and_then_Inr:
  assumes "and_then m f w = (Inr y, w'')"
  obtains x w' where "m w = (Inr x, w')" "f x w' = (Inr y, w'')"
  using assms by (auto simp: and_then_def split: prod.splits sum.splits)

lemma adds_dirs_refl: "adds_dirs p w w"
  by (simp add: adds_dirs_def)

lemma adds_dirs_trans:
  assumes "adds_dirs p w w'" "adds_dirs p w' w''"
  shows "adds_dirs p w w''"
  unfolding adds_dirs_def
proof
  fix q
  from assms(1) have a: "lookup (files w') q = lookup (files w) q
      \<or> (lookup (files w) q = None \<and> lookup (files w') q = Some Dir \<and> prefix q p)"
    by (simp add: adds_dirs_def)
  from assms(2) have b: "lookup (files w'') q = lookup (files w') q
      \<or> (lookup (files w') q = None \<and> lookup (files w'') q = Some Dir \<and> prefix q p)"
    by (simp add: adds_dirs_def)
  from a b show "lookup (files w'') q = lookup (files w) q
      \<or> (lookup (files w) q = None \<and> lookup (files w'') q = Some Dir \<and> prefix q p)"
    by auto
qed

lemma adds_dirs_parent:
  assumes "adds_dirs (butlast p) w w'"
  shows "adds_dirs p w w'"
proof -
  have "prefix (butlast p) p" by (simp add: prefixeq_butlast)
  then have "\<And>q. prefix q (butlast p) \<Longrightarrow> prefix q p" by (meson prefix_order.trans)
  with assms show ?thesis unfolding adds_dirs_def by blast
qed

lemma stat_same: "stat env p w = (r, w') \<Longrightarrow> w' = w"
  by (auto simp: stat_def raise_def succeed_def split: if_splits)

lemma exists_same: "exists env p w = (r, w') \<Longrightarrow> w' = w"
  by (auto simp: exists_def and_then_def succeed_def split: prod.splits sum.splits dest: stat_same)

lemma is_dir_same: "is_dir env p w = (r, w') \<Longrightarrow> w' = w"
  by (auto simp: is_dir_def and_then_def succeed_def split: prod.splits sum.splits dest: stat_same)

lemma is_file_same: "is_file env p w = (r, w') \<Longrightarrow> w' = w"
  by (auto simp: is_file_def and_then_def succeed_def split: prod.splits sum.splits dest: stat_same)

lemma any_iterdir_same: "any_iterdir env p w = (r, w') \<Longrightarrow> w' = w"
  by (auto simp: any_iterdir_def raise_def succeed_def
           split: if_splits option.splits node.splits)

lemma os_mkdir_adds:
  assumes "os_mkdir env p w = (r, w')"
  shows "adds_dirs p w w'"
proof (cases "refuses env Mkdir (files w) p \<or> lookup (files w) p \<noteq> None \<or> lookup (files w) (butlast p) = None
    \<or> lookup (files w) (butlast p) \<noteq> Some Dir")
  case True
  with assms have "w' = w" by (auto simp: os_mkdir_def raise_def split: if_splits)
  then show ?thesis by (simp add: adds_dirs_refl)
next
  case False
  then have new: "lookup (files w) p = None" by simp
  then have ne: "p \<noteq> []" by (auto simp: lookup_def)
  from False assms have "files w' = AList.update p Dir (files w)"
    by (auto simp: os_mkdir_def store_def)
  then show ?thesis
    unfolding adds_dirs_def using new by (simp add: lookup_update[OF ne])
qed

lemma mkdir_exist_ok_adds:
  assumes "mkdir_exist_ok env p w = (r, w')"
  shows "adds_dirs p w w'"
proof (cases "os_mkdir env p w")
  case (Pair r0 w0)
  then have a: "adds_dirs p w w0" by (rule os_mkdir_adds)
  from assms Pair have "w' = w0"
    by (auto simp: mkdir_exist_ok_def split: sum.splits if_splits prod.splits dest: is_dir_same)
  with a show ?thesis by simp
qed

lemma mkdir_parents_adds:
  "mkdir_parents env p w = (r, w') \<Longrightarrow> adds_dirs p w w'"
proof (induction env p w arbitrary: r w' rule: mkdir_parents.induct)
  case (1 env p w)
  obtain r0 w0 where first: "os_mkdir env p w = (r0, w0)" by (cases "os_mkdir env p w")
  then have a0: "adds_dirs p w w0" by (rule os_mkdir_adds)
  show ?case
  proof (cases r0)
    case (Inr u)
    with first "1.prems" have "w' = w0" by (subst (asm) mkdir_parents.simps) simp
    with a0 show ?thesis by simp
  next
    case (Inl e)
    show ?thesis
    proof (cases "e = FileNotFoundError \<and> butlast p \<noteq> p")
      case False
      with first Inl "1.prems" have "w' = w0"
        by (subst (asm) mkdir_parents.simps)
           (auto split: if_splits prod.splits sum.splits dest: is_dir_same)
      with a0 show ?thesis by simp
    next
      case True
      obtain r1 w1 where rec: "mkdir_parents env (butlast p) w0 = (r1, w1)"
        by (cases "mkdir_parents env (butlast p) w0")
      have "adds_dirs (butlast p) w0 w1"
        using "1.IH"[OF first[symmetric] Inl _ _ rec] True by simp
      then have a1: "adds_dirs p w0 w1" by (rule adds_dirs_parent)
      show ?thesis
      proof (cases r1)
        case (Inl e1)
        with first \<open>r0 = Inl e\<close> True rec "1.prems" have "w' = w1"
          by (subst (asm) mkdir_parents.simps) simp
        with a0 a1 show ?thesis using adds_dirs_trans by blast
      next
        case (Inr u)
        with first \<open>r0 = Inl e\<close> True rec "1.prems" have "mkdir_exist_ok env p w1 = (r, w')"
          by (subst (asm) mkdir_parents.simps) simp
        then have "adds_dirs p w1 w'" by (rule mkdir_exist_ok_adds)
        with a0 a1 show ?thesis using adds_dirs_trans by blast
      qed
    qed
  qed
qed

lemma adds_dirs_keeps: "adds_dirs p w w' \<Longrightarrow> keeps T w w'"
  unfolding adds_dirs_def keeps_def by metis

lemma keeps_refl: "keeps T w w"
  by (simp add: keeps_def)

lemma keeps_trans: "keeps T w w' \<Longrightarrow> keeps T w' w'' \<Longrightarrow> keeps T w w''"
  unfolding keeps_def by metis

lemma keeps_mono: "keeps T w w' \<Longrightarrow> T \<subseteq> T' \<Longrightarrow> keeps T' w w'"
  unfolding keeps_def by blast

lemma keeps_content:
  "keeps T w w' \<Longrightarrow> q \<notin> T \<Longrightarrow> file_content (files w) q = Some c
     \<Longrightarrow> file_content (files w') q = Some c"
  unfolding keeps_def file_content_def by (auto split: option.splits node.splits)

lemma frameD: "frame T m \<Longrightarrow> m w = (r, w') \<Longrightarrow> keeps T w w'"
  by (simp add: frame_def)

lemma frame_mono: "frame T m \<Longrightarrow> T \<subseteq> T' \<Longrightarrow> frame T' m"
  unfolding frame_def using keeps_mono by blast

lemma frame_succeed: "frame T (succeed x)"
  by (simp add: frame_def succeed_def keeps_refl)

lemma frame_raise: "frame T (raise e)"
  by (simp add: frame_def raise_def keeps_refl)

lemma frame_lift: "frame T (lift r)"
  by (auto simp: frame_def lift_def raise_def succeed_def keeps_refl split: sum.splits)

lemma frame_print: "frame T (print m)"
  by (auto simp: frame_def print_def keeps_def)

lemma frame_and_then:
  assumes "frame T m" "\<And>x. frame T (f x)"
  shows "frame T (and_then m f)"
  unfolding frame_def
proof (intro allI impI)
  fix w r w''
  assume "and_then m f w = (r, w'')"
  then show "keeps T w w''"
  proof (cases rule: and_then_cases)
    case (raised e)
    with assms(1) show ?thesis by (simp add: frame_def)
  next
    case (went_on x w')
    with assms have "keeps T w w'" "keeps T w' w''" by (simp_all add: frame_def)
    then show ?thesis by (rule keeps_trans)
  qed
qed

lemma frame_same:
  assumes "\<And>w r w'. m w = (r, w') \<Longrightarrow> w' = w"
  shows "frame T m"
  unfolding frame_def using assms keeps_refl by blast

lemma frame_exists: "frame T (exists env p)"
  by (rule frame_same) (rule exists_same)

lemma frame_is_dir: "frame T (is_dir env p)"
  by (rule frame_same) (rule is_dir_same)

lemma frame_any_iterdir: "frame T (any_iterdir env p)"
  by (rule frame_same) (rule any_iterdir_same)

lemma frame_mkdir_parents: "frame T (mkdir_parents env p)"
  unfolding frame_def using mkdir_parents_adds adds_dirs_keeps by blast

lemma store_keeps: "p \<noteq> [] \<Longrightarrow> store p nd w = (r, w') \<Longrightarrow> keeps {p} w w'"
  by (auto simp: store_def keeps_def lookup_update)

lemma frame_write_text: "frame {p} (write_text env p c)"
  unfolding frame_def
proof (intro allI impI)
  fix w r w'
  assume a: "write_text env p c w = (r, w')"
  show "keeps {p} w w'"
  proof (cases "p = []")
    case True
    with a have "w' = w" by (simp add: write_text_def lookup_def raise_def split: if_splits)
    then show ?thesis by (simp add: keeps_refl)
  next
    case False
    with a show ?thesis
      by (auto simp: write_text_def raise_def keeps_refl store_keeps
               split: option.splits node.splits if_splits)
  qed
qed

lemma frame_chmod: "frame {p} (chmod env p mode)"
  unfolding frame_def
proof (intro allI impI)
  fix w r w'
  assume a: "chmod env p mode w = (r, w')"
  show "keeps {p} w w'"
  proof (cases "p = []")
    case True
    with a have "w' = w"
      by (simp add: chmod_def lookup_def succeed_def raise_def split: if_splits)
    then show ?thesis by (simp add: keeps_refl)
  next
    case False
    with a show ?thesis
      by (auto simp: chmod_def raise_def succeed_def keeps_refl store_keeps
               split: option.splits node.splits if_splits)
  qed
qed

lemma frame_write_file1: "frame {p} (write_file1 env p c x)"
  unfolding write_file1_def
  by (intro frame_and_then frame_write_text) (simp add: frame_chmod frame_succeed)

lemma frame_write_file2: "frame {p} (write_file2 env p c x)"
  unfolding write_file2_def
  by (intro frame_and_then frame_write_text frame_mkdir_parents)
     (simp add: frame_chmod frame_succeed)

lemma frame_ensure_dir: "frame T (ensure_dir env p f)"
  unfolding ensure_dir_def
  by (intro frame_and_then frame_exists)
     (simp add: frame_mkdir_parents frame_and_then frame_is_dir frame_any_iterdir
        frame_raise frame_succeed)

section \<open>What a write leaves in the file\<close>

lemma store_content: "p \<noteq> [] \<Longrightarrow> store p (File c m) w = (r, w') \<Longrightarrow> file_content (files w') p = Some c"
  by (auto simp: store_def file_content_def lookup_update)

lemma write_text_content:
  assumes "write_text env p c w = (Inr u, w')"
  shows "file_content (files w') p = Some c"
proof (cases "p = []")
  case True
  with assms show ?thesis by (simp add: write_text_def lookup_def raise_def split: if_splits)
next
  case False
  with assms show ?thesis
    by (auto simp: write_text_def raise_def store_content
             split: option.splits node.splits if_splits)
qed

lemma chmod_content:
  assumes "chmod env p mode w = (r, w')"
  shows "file_content (files w') q = file_content (files w) q"
proof (cases "p = [] \<or> refuses env Chmod (files w) p")
  case True
  with assms have "w' = w"
    by (auto simp: chmod_def lookup_def succeed_def raise_def split: if_splits)
  then show ?thesis by simp
next
  case False
  show ?thesis
  proof (cases "lookup (files w) p")
    case None
    with assms False show ?thesis by (simp add: chmod_def raise_def)
  next
    case (Some nd)
    show ?thesis
    proof (cases nd)
      case Dir
      with Some assms False show ?thesis by (simp add: chmod_def succeed_def)
    next
      case (File c m)
      with Some assms False have "files w' = AList.update p (File c mode) (files w)"
        by (auto simp: chmod_def store_def)
      with Some File False show ?thesis
        by (simp add: file_content_def lookup_update)
    qed
  qed
qed

lemma write_file1_content:
  assumes "write_file1 env p c x w = (Inr u, w')"
  shows "file_content (files w') p = Some c"
  using assms unfolding write_file1_def
proof (cases rule: and_then_Inr)
  case (1 y w1)
  then have "file_content (files w1) p = Some c" by (simp add: write_text_content)
  with 1(2) show ?thesis
    by (cases x) (auto simp: chmod_content succeed_def)
qed

lemma write_file2_content:
  assumes "write_file2 env p c x w = (Inr u, w')"
  shows "file_content (files w') p = Some c"
  using assms unfolding write_file2_def
proof (cases rule: and_then_Inr)
  case (1 y w0)
  from 1(2) show ?thesis
  proof (cases rule: and_then_Inr)
    case (1 z w1)
    then have "file_content (files w1) p = Some c" by (simp add: write_text_content)
    with 1(2) show ?thesis
      by (cases x) (auto simp: chmod_content succeed_def)
  qed
qed

section \<open>Decimal numerals\<close>

lemma of_char_digit: "d < 10 \<Longrightarrow> of_char (digit_char d) = (48 + d :: nat)"
  by (simp add: digit_char_def)

lemma digit_char_inj:
  assumes "a < 10" "b < 10" "digit_char a = digit_char b"
  shows "a = b"
proof -
  have "(48 + a :: nat) = of_char (digit_char a)" by (simp only: of_char_digit[OF assms(1)])
  also have "\<dots> = of_char (digit_char b)" by (simp only: assms(3))
  also have "\<dots> = 48 + b" by (simp only: of_char_digit[OF assms(2)])
  finally show ?thesis by simp
qed

lemma str_nat_small: "n < 10 \<Longrightarrow> str_nat n = [digit_char n]"
  by (subst str_nat.simps) simp

lemma str_nat_big: "\<not> n < 10 \<Longrightarrow> str_nat n = str_nat (n div 10) @ [digit_char (n mod 10)]"
  by (subst str_nat.simps) simp

lemma str_nat_nonempty: "str_nat n \<noteq> []"
  by (cases "n < 10") (simp_all add: str_nat_small str_nat_big)

lemma str_nat_inj: "str_nat m = str_nat n \<Longrightarrow> m = n"
proof (induction m arbitrary: n rule: str_nat.induct)
  case (1 m)
  show ?case
  proof (cases "m < 10")
    case small_m: True
    show ?thesis
    proof (cases "n < 10")
      case True
      from "1.prems" have "digit_char m = digit_char n"
        unfolding str_nat_small[OF small_m] str_nat_small[OF True] by simp
      with small_m True show ?thesis by (rule digit_char_inj)
    next
      case False
      from "1.prems" have "str_nat (n div 10) = []"
        unfolding str_nat_small[OF small_m] str_nat_big[OF False] by simp
      then show ?thesis by (simp add: str_nat_nonempty)
    qed
  next
    case big_m: False
    show ?thesis
    proof (cases "n < 10")
      case True
      from "1.prems" have "str_nat (m div 10) = []"
        unfolding str_nat_big[OF big_m] str_nat_small[OF True] by simp
      then show ?thesis by (simp add: str_nat_nonempty)
    next
      case False
      from "1.prems" have eq: "str_nat (m div 10) = str_nat (n div 10)"
          "digit_char (m mod 10) = digit_char (n mod 10)"
        unfolding str_nat_big[OF big_m] str_nat_big[OF False] by simp_all
      from eq(1) have "m div 10 = n div 10" using "1.IH"[OF big_m] by simp
      moreover have "m mod 10 = n mod 10"
        using eq(2) by (intro digit_char_inj) simp_all
      ultimately show ?thesis by (metis div_mult_mod_eq)
    qed
  qed
qed

section \<open>The loop of the first tool\<close>

lemma under_member: "d @ [nm] \<in> under d"
  by (auto simp: under_def)

lemma under_from_index: "idx \<le> j \<Longrightarrow> under (root @ [str_nat j]) \<subseteq> from_index root idx"
  by (auto simp: from_index_def)

lemma from_index_Suc: "from_index root (Suc idx) \<subseteq> from_index root idx"
  by (auto simp: from_index_def intro: Suc_leD)

lemma not_in_from_index:
  assumes "j < idx"
  shows "root @ [str_nat j, nm] \<notin> from_index root idx"
proof
  assume "root @ [str_nat j, nm] \<in> from_index root idx"
  then obtain i nm' where i: "idx \<le> i" and eq: "root @ [str_nat j, nm] = (root @ [str_nat i]) @ [nm']"
    by (auto simp: from_index_def under_def)
  from eq have "str_nat j = str_nat i" by simp
  then have "j = i" by (rule str_nat_inj)
  with i assms show False by simp
qed

lemma frame_write_file1_under: "frame (under (r @ [d])) (write_file1 env (r @ [d, nm]) c x)"
  using under_member[of "r @ [d]" nm] by (intro frame_mono[OF frame_write_file1]) simp

lemma frame_write_file2_under: "frame (under (r @ [d])) (write_file2 env (r @ [d, nm]) c x)"
  using under_member[of "r @ [d]" nm] by (intro frame_mono[OF frame_write_file2]) simp

lemma frame_loop1_body:
  "frame (under (out_root @ [str_nat idx]))
     (loop1_body env a out_root orca_text slurm_text cleanup_text idx chunk)"
  unfolding loop1_body_def Let_def
  by (intro frame_and_then)
     (simp_all add: frame_print frame_ensure_dir frame_and_then frame_write_file1_under)

lemma frame_loop1:
  "frame (from_index out_root idx)
     (loop1 env a out_root orca_text slurm_text cleanup_text idx chunks)"
proof (induction chunks arbitrary: idx)
  case Nil
  show ?case by (simp add: frame_succeed)
next
  case (Cons chunk rest)
  have "frame (from_index out_root idx)
          (loop1_body env a out_root orca_text slurm_text cleanup_text idx chunk)"
    by (rule frame_mono[OF frame_loop1_body]) (simp add: under_from_index)
  moreover have "frame (from_index out_root idx)
          (loop1 env a out_root orca_text slurm_text cleanup_text (Suc idx) rest)"
    by (rule frame_mono[OF Cons.IH]) (rule from_index_Suc)
  ultimately show ?case by (simp add: frame_and_then)
qed

lemma write_file1_other:
  assumes "write_file1 env p c x w = (r, w')" "q \<noteq> p" "file_content (files w) q = Some c'"
  shows "file_content (files w') q = Some c'"
  using keeps_content[OF frameD[OF frame_write_file1 assms(1)] _ assms(3)] assms(2) by simp

lemma loop1_body_content:
  assumes "\<not> dry_run a"
    and "loop1_body env a out_root orca_text slurm_text cleanup_text idx chunk w = (Inr u, w')"
  shows "file_content (files w') (out_root @ [str_nat idx, ''geometry.xyz''])
           = Some (join ''\<newline>'' chunk @ ''\<newline>'')
       \<and> file_content (files w') (out_root @ [str_nat idx, ''orca6.inp'']) = Some orca_text
       \<and> file_content (files w') (out_root @ [str_nat idx, ''job.slurm'']) = Some slurm_text
       \<and> file_content (files w') (out_root @ [str_nat idx, ''cleanup.sh'']) = Some cleanup_text"
proof -
  let ?d = "out_root @ [str_nat idx]"
  let ?g = "join ''\<newline>'' chunk @ ''\<newline>''"
  from assms obtain w0 where
    "and_then (write_file1 env (?d @ [''geometry.xyz'']) ?g False) (\<lambda>_.
     and_then (write_file1 env (?d @ [''orca6.inp'']) orca_text False) (\<lambda>_.
     and_then (write_file1 env (?d @ [''job.slurm'']) slurm_text False) (\<lambda>_.
     write_file1 env (?d @ [''cleanup.sh'']) cleanup_text True))) w0 = (Inr u, w')"
    unfolding loop1_body_def Let_def by (elim and_then_Inr) simp
  then obtain w1 w2 w3 u1 u2 u3 where
    s1: "write_file1 env (?d @ [''geometry.xyz'']) ?g False w0 = (Inr u1, w1)" and
    s2: "write_file1 env (?d @ [''orca6.inp'']) orca_text False w1 = (Inr u2, w2)" and
    s3: "write_file1 env (?d @ [''job.slurm'']) slurm_text False w2 = (Inr u3, w3)" and
    s4: "write_file1 env (?d @ [''cleanup.sh'']) cleanup_text True w3 = (Inr u, w')"
    by (elim and_then_Inr) blast
  have g1: "file_content (files w1) (?d @ [''geometry.xyz'']) = Some ?g"
    using s1 by (rule write_file1_content)
  have g2: "file_content (files w2) (?d @ [''geometry.xyz'']) = Some ?g"
    by (rule write_file1_other[OF s2 _ g1]) simp
  have o2: "file_content (files w2) (?d @ [''orca6.inp'']) = Some orca_text"
    using s2 by (rule write_file1_content)
  have g3: "file_content (files w3) (?d @ [''geometry.xyz'']) = Some ?g"
    by (rule write_file1_other[OF s3 _ g2]) simp
  have o3: "file_content (files w3) (?d @ [''orca6.inp'']) = Some orca_text"
    by (rule write_file1_other[OF s3 _ o2]) simp
  have l3: "file_content (files w3) (?d @ [''job.slurm'']) = Some slurm_text"
    using s3 by (rule write_file1_content)
  have g4: "file_content (files w') (?d @ [''geometry.xyz'']) = Some ?g"
    by (rule write_file1_other[OF s4 _ g3]) simp
  have o4: "file_content (files w') (?d @ [''orca6.inp'']) = Some orca_text"
    by (rule write_file1_other[OF s4 _ o3]) simp
  have l4: "file_content (files w') (?d @ [''job.slurm'']) = Some slurm_text"
    by (rule write_file1_other[OF s4 _ l3]) simp
  have c4: "file_content (files w') (?d @ [''cleanup.sh'']) = Some cleanup_text"
    using s4 by (rule write_file1_content)
  from g4 o4 l4 c4 show ?thesis by simp
qed

lemma loop1_content:
  assumes "\<not> dry_run a"
    and "loop1 env a out_root orca_text slurm_text cleanup_text idx chunks w = (Inr u, w')"
    and "k < length chunks"
  shows "file_content (files w') (out_root @ [str_nat (idx + k), ''geometry.xyz''])
           = Some (join ''\<newline>'' (chunks ! k) @ ''\<newline>'')
       \<and> file_content (files w') (out_root @ [str_nat (idx + k), ''orca6.inp'']) = Some orca_text
       \<and> file_content (files w') (out_root @ [str_nat (idx + k), ''job.slurm'']) = Some slurm_text
       \<and> file_content (files w') (out_root @ [str_nat (idx + k), ''cleanup.sh''])
           = Some cleanup_text"
  using assms(2,3)
proof (induction chunks arbitrary: idx w k)
  case Nil
  then show ?case by simp
next
  case (Cons chunk rest)
  from Cons.prems(1) obtain u1 w1 where
    body: "loop1_body env a out_root orca_text slurm_text cleanup_text idx chunk w = (Inr u1, w1)"
    and rest: "loop1 env a out_root orca_text slurm_text cleanup_text (Suc idx) rest w1 = (Inr u, w')"
    by (auto elim: and_then_Inr)
  show ?case
  proof (cases k)
    case 0
    have kept: "keeps (from_index out_root (Suc idx)) w1 w'"
      using frameD[OF frame_loop1 rest] .
    have out: "\<And>nm. out_root @ [str_nat idx, nm] \<notin> from_index out_root (Suc idx)"
      by (rule not_in_from_index) simp
    from loop1_body_content[OF assms(1) body] 0 show ?thesis
      by (simp add: keeps_content[OF kept out])
  next
    case (Suc k')
    with Cons.prems(2) have "k' < length rest" by simp
    from Cons.IH[OF rest this] Suc show ?thesis by simp
  qed
qed

section \<open>Reading files\<close>

lemma stat_result:
  "stat env p w =
     (if refuses env Stat (files w) p then (Inl OSError, w) else (Inr (lookup (files w) p), w))"
  by (simp add: stat_def raise_def succeed_def)

lemma is_file_result:
  "is_file env p w =
     (if refuses env Stat (files w) p then (Inl OSError, w)
      else (Inr (file_content (files w) p \<noteq> None), w))"
  by (auto simp: is_file_def and_then_def stat_result succeed_def file_content_def
           split: option.splits node.splits)

lemma read_text_content:
  "\<not> refuses env Open_read (files w) p \<Longrightarrow> file_content (files w) p = Some c
     \<Longrightarrow> read_text env p w = (Inr c, w)"
  by (auto simp: read_text_def file_content_def succeed_def split: option.splits node.splits)

lemma read_text_fst:
  assumes "fst (read_text env p w) = Inr raw"
  shows "\<not> refuses env Open_read (files w) p \<and> file_content (files w) p = Some raw"
  using assms
  by (auto simp: read_text_def file_content_def raise_def succeed_def
           split: option.splits node.splits if_splits)

lemma read_text_raises:
  "refuses env Open_read (files w) p \<Longrightarrow> read_text env p w = (Inl OSError, w)"
  by (simp add: read_text_def raise_def)

lemma read_arg_result:
  "read_arg_text_or_file env val w =
     (if unreadable env (files w) val then (Inl OSError, w)
      else (Inr (resolved_text env (files w) val), w))"
proof (cases "file_content (files w) (to_path env val)")
  case None
  then show ?thesis
    by (simp add: read_arg_text_or_file_def Let_def and_then_def is_file_result
          resolved_text_def succeed_def unreadable_def)
next
  case (Some c)
  then show ?thesis
    by (simp add: read_arg_text_or_file_def Let_def and_then_def is_file_result
          resolved_text_def read_text_content read_text_raises unreadable_def)
qed

lemma read_arg_fst:
  assumes "fst (read_arg_text_or_file env val w) = Inr t"
  shows "\<not> unreadable env (files w) val \<and> t = resolved_text env (files w) val"
  using assms by (auto simp: read_arg_result split: if_splits)

lemma adds_dirs_content:
  assumes "adds_dirs p w w'"
  shows "file_content (files w') q = file_content (files w) q"
proof -
  from assms have "lookup (files w') q = lookup (files w) q
      \<or> (lookup (files w) q = None \<and> lookup (files w') q = Some Dir)"
    by (auto simp: adds_dirs_def)
  then show ?thesis by (auto simp: file_content_def)
qed

lemma adds_dirs_resolved:
  "adds_dirs p w w' \<Longrightarrow> resolved_text env (files w') val = resolved_text env (files w) val"
  by (simp add: resolved_text_def adds_dirs_content)

lemma lift_Inr: "lift r w = (Inr x, w') \<Longrightarrow> r = Inr x \<and> w' = w"
  by (auto simp: lift_def raise_def succeed_def split: sum.splits)

lemma and_then_step: "m w = (Inr x, w1) \<Longrightarrow> and_then m f w = f x w1"
  by (simp add: and_then_def)

lemma and_then_raised: "m w = (Inl e, w1) \<Longrightarrow> and_then m f w = (Inl e, w1)"
  by (simp add: and_then_def)

section \<open>The first tool as a whole\<close>

lemma main1_raises:
  assumes "refuses env Stat (files w) (to_path env (geometry_list a))"
  shows "main1 env a w = (Inl OSError, w)"
  using assms by (simp add: main1_def Let_def and_then_def is_file_result)

lemma main1_rejects:
  assumes "fst (is_file env (to_path env (geometry_list a)) w) = Inr found"
    and "\<not> found \<or> lines_per_geometry a \<le> 0"
  shows "fst (main1 env a w) = Inr 2 \<and> files (snd (main1 env a w)) = files w"
proof -
  from assms(1) have "is_file env (to_path env (geometry_list a)) w = (Inr found, w)"
    by (auto simp: is_file_result split: if_splits)
  with assms(2) show ?thesis
    by (auto simp: main1_def Let_def and_then_def print_def succeed_def)
qed

lemma main1_accepts:
  assumes "\<not> refuses env Stat (files w) (to_path env (geometry_list a))"
    and "file_content (files w) (to_path env (geometry_list a)) \<noteq> None"
    and "0 < lines_per_geometry a"
  shows "main1 env a w =
     and_then (mkdir_parents env (to_path env (out a))) (\<lambda>_.
     and_then (read_text env (to_path env (geometry_list a))) (\<lambda>raw.
     and_then (lift (chunk_lines1 (splitlines env raw) (lines_per_geometry a))) (\<lambda>chunks.
       main1_rest env a (splitlines env raw) chunks))) w"
proof -
  have isf: "is_file env (to_path env (geometry_list a)) w = (Inr True, w)"
    using assms(1,2) by (simp add: is_file_result)
  have n: "(lines_per_geometry a \<le> 0) = False"
    using assms(3) by simp
  have e: "\<And>xs :: string list list. (int (length xs) = 0) = (xs = [])"
    by simp
  show ?thesis
    unfolding main1_def Let_def main1_rest_def main1_tail_def
      and_then_step[of "is_file env (to_path env (geometry_list a))" w True w, OF isf]
    by (simp only: n e if_False if_True not_True_eq_False)
qed

lemma main1_reaches:
  assumes nl: "\<not> refuses env Stat (files w) (to_path env (geometry_list a))"
    and geom: "file_content (files w) (to_path env (geometry_list a)) = Some raw"
    and n: "0 < lines_per_geometry a"
    and mk: "mkdir_parents env (to_path env (out a)) w = (Inr u, w1)"
    and nl1: "\<not> refuses env Open_read (files w1) (to_path env (geometry_list a))"
    and ch: "chunk_lines1 (splitlines env raw) (lines_per_geometry a) = Inr chunks"
  shows "main1 env a w = main1_rest env a (splitlines env raw) chunks w1"
proof -
  have "file_content (files w1) (to_path env (geometry_list a)) = Some raw"
    using adds_dirs_content[OF mkdir_parents_adds[OF mk]] geom by simp
  then have rd: "read_text env (to_path env (geometry_list a)) w1 = (Inr raw, w1)"
    using nl1 by (simp add: read_text_content)
  have lf: "lift (chunk_lines1 (splitlines env raw) (lines_per_geometry a)) w1 = (Inr chunks, w1)"
    by (simp add: ch lift_def succeed_def)
  have ne: "file_content (files w) (to_path env (geometry_list a)) \<noteq> None"
    using geom by simp
  show ?thesis
    unfolding main1_accepts[OF nl ne n]
      and_then_step[of "mkdir_parents env (to_path env (out a))" w u w1, OF mk]
      and_then_step[of "read_text env (to_path env (geometry_list a))" w1 raw w1, OF rd]
      and_then_step[of "lift (chunk_lines1 (splitlines env raw) (lines_per_geometry a))"
         w1 chunks w1, OF lf]
    by (rule refl)
qed

lemma main1_rest_cases:
  obtains (orca) w2 where "unreadable env (files v) (orca_input a)"
      "main1_rest env a lines chunks v = (Inl OSError, w2)" "files w2 = files v"
  | (slurm) w2 where "\<not> unreadable env (files v) (orca_input a)"
      "unreadable env (files v) (slurm_input a)"
      "main1_rest env a lines chunks v = (Inl OSError, w2)" "files w2 = files v"
  | (idle) w2 where "\<not> unreadable env (files v) (orca_input a)"
      "\<not> unreadable env (files v) (slurm_input a)" "chunks = []"
      "main1_rest env a lines chunks v = (Inr 0, w2)" "files w2 = files v"
  | (loop) w2 where "\<not> unreadable env (files v) (orca_input a)"
      "\<not> unreadable env (files v) (slurm_input a)" "chunks \<noteq> []"
      "main1_rest env a lines chunks v
         = main1_tail env a chunks (resolved_text env (files v) (orca_input a))
             (resolved_text env (files v) (slurm_input a)) w2"
      "files w2 = files v"
proof -
  let ?warn = "(if int (length lines) - int (length chunks) * lines_per_geometry a \<noteq> 0
               then print (Warning_remainder (int (length lines)) (lines_per_geometry a)
                      (int (length lines) - int (length chunks) * lines_per_geometry a))
               else succeed ())"
  obtain w2 where w2: "?warn v = (Inr (), w2)" "files w2 = files v"
    by (cases "?warn v") (auto simp: print_def succeed_def split: if_splits)
  have start: "main1_rest env a lines chunks v =
     and_then (read_arg_text_or_file env (orca_input a)) (\<lambda>orca_text.
     and_then (read_arg_text_or_file env (slurm_input a)) (\<lambda>slurm_text.
       if chunks = [] then and_then (print Nothing_to_do) (\<lambda>_. succeed 0)
       else main1_tail env a chunks orca_text slurm_text)) w2"
    unfolding main1_rest_def and_then_step[of ?warn v "()" w2, OF w2(1)] by (rule refl)
  show ?thesis
  proof (cases "unreadable env (files v) (orca_input a)")
    case True
    then have "main1_rest env a lines chunks v = (Inl OSError, w2)"
      unfolding start by (simp add: and_then_def read_arg_result w2(2))
    with True w2(2) show ?thesis using orca by blast
  next
    case no: False
    show ?thesis
    proof (cases "unreadable env (files v) (slurm_input a)")
      case True
      with no have "main1_rest env a lines chunks v = (Inl OSError, w2)"
        unfolding start by (simp add: and_then_def read_arg_result w2(2))
      with no True w2(2) show ?thesis using slurm by blast
    next
      case ns: False
      show ?thesis
      proof (cases "chunks = []")
        case True
        with no ns have "main1_rest env a lines chunks v
            = (Inr 0, w2\<lparr>printed := printed w2 @ [Nothing_to_do]\<rparr>)"
          unfolding start by (simp add: and_then_def read_arg_result w2(2) print_def succeed_def)
        moreover have "files (w2\<lparr>printed := printed w2 @ [Nothing_to_do]\<rparr>) = files v"
          using w2(2) by simp
        ultimately show ?thesis using no ns True idle by blast
      next
        case False
        with no ns have "main1_rest env a lines chunks v
         = main1_tail env a chunks (resolved_text env (files v) (orca_input a))
             (resolved_text env (files v) (slurm_input a)) w2"
          unfolding start by (simp add: and_then_def read_arg_result w2(2))
        with no ns False w2(2) show ?thesis using loop by blast
      qed
    qed
  qed
qed


lemma harmless_print: "harmless (print m)"
  by (simp add: harmless_def print_def)

lemma harmless_succeed: "harmless (succeed x)"
  by (simp add: harmless_def succeed_def)

lemma yields_succeed: "yields x (succeed x)"
  by (simp add: yields_def succeed_def)

lemma harmless_and_then:
  assumes "harmless m" "\<And>x. harmless (f x)"
  shows "harmless (and_then m f)"
  unfolding harmless_def
proof
  fix w
  from assms(1) obtain x w1 where m: "m w = (Inr x, w1)" "files w1 = files w"
    unfolding harmless_def by blast
  from assms(2)[of x] obtain y w2 where f: "f x w1 = (Inr y, w2)" "files w2 = files w1"
    unfolding harmless_def by blast
  from m f show "\<exists>x w'. and_then m f w = (Inr x, w') \<and> files w' = files w"
    by (simp add: and_then_def)
qed

lemma yields_and_then:
  assumes "harmless m" "\<And>x. yields y (f x)"
  shows "yields y (and_then m f)"
  unfolding yields_def
proof
  fix w
  from assms(1) obtain x w1 where m: "m w = (Inr x, w1)" "files w1 = files w"
    unfolding harmless_def by blast
  from assms(2)[of x] obtain w2 where f: "f x w1 = (Inr y, w2)" "files w2 = files w1"
    unfolding yields_def by blast
  from m f show "\<exists>w'. and_then m f w = (Inr y, w') \<and> files w' = files w"
    by (simp add: and_then_def)
qed

lemma harmless_loop1_body:
  "dry_run a \<Longrightarrow> harmless (loop1_body env a out_root orca_text slurm_text cleanup_text idx chunk)"
  unfolding loop1_body_def Let_def
  by (simp add: harmless_and_then harmless_print)

lemma harmless_loop1:
  assumes "dry_run a"
  shows "harmless (loop1 env a out_root orca_text slurm_text cleanup_text idx chunks)"
proof (induction chunks arbitrary: idx)
  case Nil
  show ?case by (simp add: harmless_succeed)
next
  case (Cons chunk rest)
  then show ?case
    by (simp add: harmless_and_then harmless_loop1_body[OF assms])
qed

lemma main1_tail_dry_run:
  assumes dry: "dry_run a"
  shows "yields 0 (main1_tail env a chunks orca_text slurm_text)"
  unfolding main1_tail_def
  by (intro yields_and_then harmless_loop1[OF dry] harmless_print yields_succeed)

lemma main1_dry_run:
  assumes nl: "\<not> refuses env Stat (files w) (to_path env (geometry_list a))"
    and geom: "file_content (files w) (to_path env (geometry_list a)) = Some raw"
    and n: "0 < lines_per_geometry a"
    and dry: "dry_run a"
    and mk: "mkdir_parents env (to_path env (out a)) w = (Inr u, w1)"
    and nl1: "\<not> refuses env Open_read (files w1) (to_path env (geometry_list a))"
    and no: "\<not> unreadable env (files w1) (orca_input a)"
    and ns: "\<not> unreadable env (files w1) (slurm_input a)"
  shows "fst (main1 env a w) = Inr 0 \<and> files (snd (main1 env a w)) = files w1"
proof -
  from n obtain chunks where
    ch: "chunk_lines1 (splitlines env raw) (lines_per_geometry a) = Inr chunks"
    by (simp add: chunk_lines1_blocks)
  note reach = main1_reaches[OF nl geom n mk nl1 ch]
  show ?thesis
  proof (rule main1_rest_cases[where env = env and a = a and lines = "splitlines env raw"
          and chunks = chunks and v = w1])
    fix w2
    assume "unreadable env (files w1) (orca_input a)"
    with no show ?thesis by simp
  next
    fix w2
    assume "unreadable env (files w1) (slurm_input a)"
    with ns show ?thesis by simp
  next
    fix w2
    assume "main1_rest env a (splitlines env raw) chunks w1 = (Inr 0, w2)" "files w2 = files w1"
    with reach show ?thesis by simp
  next
    fix w2
    assume t: "main1_rest env a (splitlines env raw) chunks w1
         = main1_tail env a chunks (resolved_text env (files w1) (orca_input a))
             (resolved_text env (files w1) (slurm_input a)) w2"
      and f: "files w2 = files w1"
    from main1_tail_dry_run[OF dry, of env chunks
        "resolved_text env (files w1) (orca_input a)"
        "resolved_text env (files w1) (slurm_input a)"]
    obtain w3 where "main1_tail env a chunks (resolved_text env (files w1) (orca_input a))
             (resolved_text env (files w1) (slurm_input a)) w2 = (Inr 0, w3)"
      "files w3 = files w2"
      unfolding yields_def by blast
    with reach t f show ?thesis by simp
  qed
qed

lemma main1_success:
  assumes run: "main1 env a w = (Inr (0::int), w')"
  obtains raw chunks u w1 where
    "file_content (files w) (to_path env (geometry_list a)) = Some raw"
    "0 < lines_per_geometry a"
    "mkdir_parents env (to_path env (out a)) w = (Inr u, w1)"
    "chunk_lines1 (splitlines env raw) (lines_per_geometry a) = Inr chunks"
    "main1_rest env a (splitlines env raw) chunks w1 = (Inr 0, w')"
proof -
  have nl: "\<not> refuses env Stat (files w) (to_path env (geometry_list a))"
    using run main1_raises[where env = env and a = a and w = w] by auto
  have isf: "file_content (files w) (to_path env (geometry_list a)) \<noteq> None
      \<and> 0 < lines_per_geometry a"
  proof (rule ccontr)
    assume c: "\<not> ?thesis"
    have "fst (is_file env (to_path env (geometry_list a)) w)
        = Inr (file_content (files w) (to_path env (geometry_list a)) \<noteq> None)"
      using nl by (simp add: is_file_result)
    from main1_rejects[OF this] c have "fst (main1 env a w) = Inr 2" by auto
    with run show False by simp
  qed
  then obtain raw where geom: "file_content (files w) (to_path env (geometry_list a)) = Some raw"
    by auto
  from isf have ne: "file_content (files w) (to_path env (geometry_list a)) \<noteq> None"
    and n: "0 < lines_per_geometry a" by simp_all
  note run' = run[unfolded main1_accepts[OF nl ne n]]
  from run' obtain u w1 raw1 w1r where
    mk: "mkdir_parents env (to_path env (out a)) w = (Inr u, w1)"
    and rd: "read_text env (to_path env (geometry_list a)) w1 = (Inr raw1, w1r)"
    by (elim and_then_Inr) blast
  from rd have nl1: "\<not> refuses env Open_read (files w1) (to_path env (geometry_list a))"
    using read_text_fst[of env "to_path env (geometry_list a)" w1 raw1] by simp
  from n obtain chunks where
    ch: "chunk_lines1 (splitlines env raw) (lines_per_geometry a) = Inr chunks"
    by (simp add: chunk_lines1_blocks)
  from main1_reaches[OF nl geom n mk nl1 ch] run
  have "main1_rest env a (splitlines env raw) chunks w1 = (Inr 0, w')" by simp
  with geom n mk ch show ?thesis by (rule that)
qed

lemma main1_written:
  assumes run: "main1 env a w = (Inr (0::int), w')"
    and wet: "\<not> dry_run a"
    and geom: "file_content (files w) (to_path env (geometry_list a)) = Some raw"
    and ch: "chunk_lines1 (splitlines env raw) (lines_per_geometry a) = Inr chunks"
    and k: "k < length chunks"
  shows "file_content (files w') (to_path env (out a) @ [str_nat (Suc k), ''geometry.xyz''])
           = Some (join ''\<newline>'' (chunks ! k) @ ''\<newline>'')
       \<and> file_content (files w') (to_path env (out a) @ [str_nat (Suc k), ''orca6.inp''])
           = Some (resolved_text env (files w) (orca_input a))
       \<and> file_content (files w') (to_path env (out a) @ [str_nat (Suc k), ''job.slurm''])
           = Some (resolved_text env (files w) (slurm_input a))
       \<and> file_content (files w') (to_path env (out a) @ [str_nat (Suc k), ''cleanup.sh''])
           = Some build_cleanup_script1"
proof -
  from run obtain raw' chunks' u w1 where
    geom': "file_content (files w) (to_path env (geometry_list a)) = Some raw'"
    and mk: "mkdir_parents env (to_path env (out a)) w = (Inr u, w1)"
    and ch': "chunk_lines1 (splitlines env raw') (lines_per_geometry a) = Inr chunks'"
    and rest': "main1_rest env a (splitlines env raw') chunks' w1 = (Inr 0, w')"
    by (rule main1_success)
  from geom geom' have "raw' = raw" by simp
  with ch ch' have "chunks' = chunks" by simp
  note rest = rest'[unfolded \<open>raw' = raw\<close> \<open>chunks' = chunks\<close>]
  have ad: "adds_dirs (to_path env (out a)) w w1" using mk by (rule mkdir_parents_adds)
  have ne: "chunks \<noteq> []" using k by auto
  have res: "\<And>val. resolved_text env (files w1) val = resolved_text env (files w) val"
    using adds_dirs_resolved[OF ad] by simp
  from rest ne obtain w2 where
    "main1_tail env a chunks (resolved_text env (files w) (orca_input a))
             (resolved_text env (files w) (slurm_input a)) w2 = (Inr 0, w')"
    by (rule_tac main1_rest_cases[where env = env and a = a and lines = "splitlines env raw"
          and chunks = chunks and v = w1]) (auto simp: res)
  then obtain w3 w4 u4 where
    loop: "loop1 env a (to_path env (out a)) (resolved_text env (files w) (orca_input a))
             (resolved_text env (files w) (slurm_input a)) build_cleanup_script1 1 chunks w3
             = (Inr u4, w4)"
    and fin: "files w' = files w4"
    unfolding main1_tail_def
    by (elim and_then_Inr) (auto simp: print_def succeed_def)
  with loop1_content[OF wet loop k] show ?thesis by simp
qed

section \<open>The loop of the second tool\<close>

lemma loop2_body_unfold:
  "loop2_body env chunks orca_text slurm_text cleanup_text ord_idx geom_idx w =
     (if refuses env Stat (files w) [str_nat ord_idx] then (Inl OSError, w)
      else if lookup (files w) [str_nat ord_idx] = Some Dir
      then (if refuses env Listdir (files w) [str_nat ord_idx] then (Inl OSError, w)
            else if any_iterdir env [str_nat ord_idx] w = (Inr True, w)
            then and_then (print (Error_directory_not_empty [str_nat ord_idx]))
                   (\<lambda>_. succeed (Some 2)) w
            else loop2_writes env chunks orca_text slurm_text cleanup_text ord_idx geom_idx w)
      else and_then (mkdir_parents env [str_nat ord_idx]) (\<lambda>_.
             loop2_writes env chunks orca_text slurm_text cleanup_text ord_idx geom_idx) w)"
proof -
  let ?d = "[str_nat ord_idx]"
  let ?W = "loop2_writes env chunks orca_text slurm_text cleanup_text ord_idx geom_idx"
  have body: "loop2_body env chunks orca_text slurm_text cleanup_text ord_idx geom_idx =
      and_then (exists env ?d) (\<lambda>found.
         and_then (if found then is_dir env ?d else succeed False) (\<lambda>dir.
           if dir then
             and_then (any_iterdir env ?d) (\<lambda>used.
               if used then
                 and_then (print (Error_directory_not_empty ?d)) (\<lambda>_. succeed (Some 2))
               else ?W)
           else and_then (mkdir_parents env ?d) (\<lambda>_. ?W)))"
    unfolding loop2_body_def loop2_writes_def Let_def append_Cons append_Nil by (rule refl)
  show ?thesis
  proof (cases "refuses env Stat (files w) ?d")
    case True
    then show ?thesis
      unfolding body by (simp add: and_then_def exists_def stat_result)
  next
    case short: False
    show ?thesis
    proof (cases "lookup (files w) ?d = Some Dir")
      case True
      from True short have ex: "exists env ?d w = (Inr True, w)"
        and dir: "is_dir env ?d w = (Inr True, w)"
        by (simp_all add: exists_def is_dir_def and_then_def stat_result succeed_def)
      show ?thesis
      proof (cases "refuses env Listdir (files w) ?d")
        case refused: True
        then have it: "any_iterdir env ?d w = (Inl OSError, w)"
          by (simp add: any_iterdir_def raise_def)
        show ?thesis
          unfolding body
            and_then_step[of "exists env ?d" w True w, OF ex]
          using short True refused it dir by (simp add: and_then_def)
      next
        case listed: False
        with True obtain b where it: "any_iterdir env ?d w = (Inr b, w)"
          by (simp add: any_iterdir_def succeed_def)
        show ?thesis
          unfolding body
            and_then_step[of "exists env ?d" w True w, OF ex]
          using short True listed it dir by (simp add: and_then_def)
      qed
    next
      case False
      have "and_then (exists env ?d) (\<lambda>found.
           and_then (if found then is_dir env ?d else succeed False) (\<lambda>dir. g dir)) w
          = g False w" for g :: "bool \<Rightarrow> int option action"
        using short False
        by (simp add: exists_def is_dir_def and_then_def stat_result succeed_def)
      then show ?thesis
        unfolding body using short False by simp
    qed
  qed
qed

lemma frame_write_file2_top: "frame (under [d]) (write_file2 env [d, nm] c x)"
  using frame_write_file2_under[of "[]" d env nm c x] by simp

lemma frame_loop2_writes:
  "frame (under [str_nat ord_idx])
     (loop2_writes env chunks orca_text slurm_text cleanup_text ord_idx geom_idx)"
  unfolding loop2_writes_def
  by (intro frame_and_then frame_lift frame_write_file2_top frame_succeed)

lemma frame_loop2_body:
  "frame (under [str_nat ord_idx])
     (loop2_body env chunks orca_text slurm_text cleanup_text ord_idx geom_idx)"
  unfolding frame_def
proof (intro allI impI)
  fix w r w'
  assume run: "loop2_body env chunks orca_text slurm_text cleanup_text ord_idx geom_idx w = (r, w')"
  let ?T = "under [str_nat ord_idx]"
  let ?W = "loop2_writes env chunks orca_text slurm_text cleanup_text ord_idx geom_idx"
  consider (raised) "files w' = files w"
    | (writes) "?W w = (r, w')"
    | (mk) "and_then (mkdir_parents env [str_nat ord_idx]) (\<lambda>_. ?W) w = (r, w')"
    using run unfolding loop2_body_unfold
    by (auto simp: and_then_def print_def succeed_def split: if_splits)
  then show "keeps ?T w w'"
  proof cases
    case raised
    then show ?thesis by (simp add: keeps_def)
  next
    case writes
    then show ?thesis by (rule frameD[OF frame_loop2_writes])
  next
    case mk
    moreover have "frame ?T (and_then (mkdir_parents env [str_nat ord_idx]) (\<lambda>_. ?W))"
      by (intro frame_and_then frame_mkdir_parents frame_loop2_writes)
    ultimately show ?thesis by (rule frameD[rotated])
  qed
qed

lemma frame_loop2:
  "frame (from_index [] ord_idx)
     (loop2 env chunks orca_text slurm_text cleanup_text ord_idx indices)"
proof (induction indices arbitrary: ord_idx)
  case Nil
  show ?case by (simp add: frame_succeed)
next
  case (Cons geom_idx rest)
  have "frame (from_index [] ord_idx)
          (loop2_body env chunks orca_text slurm_text cleanup_text ord_idx geom_idx)"
    by (rule frame_mono[OF frame_loop2_body]) (use under_from_index[of ord_idx ord_idx "[]"] in simp)
  moreover have "frame (from_index [] ord_idx)
          (loop2 env chunks orca_text slurm_text cleanup_text (Suc ord_idx) rest)"
    by (rule frame_mono[OF Cons.IH]) (rule from_index_Suc)
  ultimately show ?case
    by (auto intro!: frame_and_then simp: frame_succeed split: option.splits)
qed

lemma write_file2_other:
  assumes "write_file2 env p c x w = (r, w')" "q \<noteq> p" "file_content (files w) q = Some c'"
  shows "file_content (files w') q = Some c'"
  using keeps_content[OF frameD[OF frame_write_file2 assms(1)] _ assms(3)] assms(2) by simp

lemma loop2_writes_None:
  "loop2_writes env chunks orca_text slurm_text cleanup_text ord_idx geom_idx w = (Inr r, w')
     \<Longrightarrow> r = None"
  unfolding loop2_writes_def by (elim and_then_Inr) (simp add: succeed_def)

lemma loop2_body_returned:
  assumes "loop2_body env chunks orca_text slurm_text cleanup_text ord_idx geom_idx w
             = (Inr (Some code), w')"
  shows "code = 2 \<and> files w' = files w
       \<and> is_dir env [str_nat ord_idx] w = (Inr True, w)
       \<and> any_iterdir env [str_nat ord_idx] w = (Inr True, w)"
proof -
  let ?W = "loop2_writes env chunks orca_text slurm_text cleanup_text ord_idx geom_idx"
  have nw: "?W w1 \<noteq> (Inr (Some code), w')" for w1
    using loop2_writes_None[of env chunks orca_text slurm_text cleanup_text ord_idx geom_idx w1
        "Some code" w'] by auto
  have nm: "and_then (mkdir_parents env [str_nat ord_idx]) (\<lambda>_. ?W) w \<noteq> (Inr (Some code), w')"
  proof
    assume "and_then (mkdir_parents env [str_nat ord_idx]) (\<lambda>_. ?W) w = (Inr (Some code), w')"
    then obtain w1 where "?W w1 = (Inr (Some code), w')" by (elim and_then_Inr)
    with nw show False by simp
  qed
  from assms nw[of w] nm show ?thesis
    unfolding loop2_body_unfold
    by (auto simp: and_then_def print_def succeed_def is_dir_def stat_result split: if_splits)
qed

lemma loop2_body_content:
  assumes "loop2_body env chunks orca_text slurm_text cleanup_text ord_idx geom_idx w
             = (Inr None, w')"
  shows "\<exists>chunk. py_index chunks geom_idx = Inr chunk
       \<and> file_content (files w') [str_nat ord_idx, ''geometry.xyz'']
           = Some (join ''\<newline>'' chunk @ ''\<newline>'')
       \<and> file_content (files w') [str_nat ord_idx, ''orca6.inp''] = Some orca_text
       \<and> file_content (files w') [str_nat ord_idx, ''job.slurm''] = Some slurm_text
       \<and> file_content (files w') [str_nat ord_idx, ''cleanup.sh''] = Some cleanup_text"
proof -
  let ?W = "loop2_writes env chunks orca_text slurm_text cleanup_text ord_idx geom_idx"
  from assms have "?W w = (Inr None, w')
      \<or> and_then (mkdir_parents env [str_nat ord_idx]) (\<lambda>_. ?W) w = (Inr None, w')"
    unfolding loop2_body_unfold
    by (auto simp: and_then_def print_def succeed_def split: if_splits)
  then obtain w00 where "?W w00 = (Inr None, w')"
    by (auto elim: and_then_Inr)
  then obtain chunk w0 w0' w1 w2 w3 w4 u1 u2 u3 u4 where
    ix: "lift (py_index chunks geom_idx) w0' = (Inr chunk, w0)" and
    s1: "write_file2 env [str_nat ord_idx, ''geometry.xyz'']
           (join ''\<newline>'' chunk @ ''\<newline>'') False w0 = (Inr u1, w1)" and
    s2: "write_file2 env [str_nat ord_idx, ''orca6.inp''] orca_text False w1 = (Inr u2, w2)" and
    s3: "write_file2 env [str_nat ord_idx, ''job.slurm''] slurm_text False w2 = (Inr u3, w3)" and
    s4: "write_file2 env [str_nat ord_idx, ''cleanup.sh''] cleanup_text True w3 = (Inr u4, w4)" and
    s5: "succeed (None :: int option) w4 = (Inr None, w')"
    unfolding loop2_writes_def by (elim and_then_Inr) blast
  from s5 have w': "w' = w4" by (simp add: succeed_def)
  let ?g = "join ''\<newline>'' chunk @ ''\<newline>''"
  have g1: "file_content (files w1) [str_nat ord_idx, ''geometry.xyz''] = Some ?g"
    using s1 by (rule write_file2_content)
  have g2: "file_content (files w2) [str_nat ord_idx, ''geometry.xyz''] = Some ?g"
    by (rule write_file2_other[OF s2 _ g1]) simp
  have o2: "file_content (files w2) [str_nat ord_idx, ''orca6.inp''] = Some orca_text"
    using s2 by (rule write_file2_content)
  have g3: "file_content (files w3) [str_nat ord_idx, ''geometry.xyz''] = Some ?g"
    by (rule write_file2_other[OF s3 _ g2]) simp
  have o3: "file_content (files w3) [str_nat ord_idx, ''orca6.inp''] = Some orca_text"
    by (rule write_file2_other[OF s3 _ o2]) simp
  have l3: "file_content (files w3) [str_nat ord_idx, ''job.slurm''] = Some slurm_text"
    using s3 by (rule write_file2_content)
  have g4: "file_content (files w4) [str_nat ord_idx, ''geometry.xyz''] = Some ?g"
    by (rule write_file2_other[OF s4 _ g3]) simp
  have o4: "file_content (files w4) [str_nat ord_idx, ''orca6.inp''] = Some orca_text"
    by (rule write_file2_other[OF s4 _ o3]) simp
  have l4: "file_content (files w4) [str_nat ord_idx, ''job.slurm''] = Some slurm_text"
    by (rule write_file2_other[OF s4 _ l3]) simp
  have c4: "file_content (files w4) [str_nat ord_idx, ''cleanup.sh''] = Some cleanup_text"
    using s4 by (rule write_file2_content)
  from lift_Inr[OF ix] g4 o4 l4 c4 w' show ?thesis by blast
qed

lemma loop2_content:
  assumes "loop2 env chunks orca_text slurm_text cleanup_text ord_idx indices w = (Inr None, w')"
    and "k < length indices"
  shows "\<exists>chunk. py_index chunks (indices ! k) = Inr chunk
       \<and> file_content (files w') [str_nat (ord_idx + k), ''geometry.xyz'']
           = Some (join ''\<newline>'' chunk @ ''\<newline>'')
       \<and> file_content (files w') [str_nat (ord_idx + k), ''orca6.inp''] = Some orca_text
       \<and> file_content (files w') [str_nat (ord_idx + k), ''job.slurm''] = Some slurm_text
       \<and> file_content (files w') [str_nat (ord_idx + k), ''cleanup.sh''] = Some cleanup_text"
  using assms
proof (induction indices arbitrary: ord_idx w k)
  case Nil
  then show ?case by simp
next
  case (Cons geom_idx rest)
  from Cons.prems(1) obtain w1 where
    body: "loop2_body env chunks orca_text slurm_text cleanup_text ord_idx geom_idx w = (Inr None, w1)"
    and rest: "loop2 env chunks orca_text slurm_text cleanup_text (Suc ord_idx) rest w1 = (Inr None, w')"
    by (auto elim!: and_then_Inr simp: succeed_def split: option.splits)
  show ?case
  proof (cases k)
    case 0
    have kept: "keeps (from_index [] (Suc ord_idx)) w1 w'"
      using frameD[OF frame_loop2 rest] .
    have out: "\<And>nm. [str_nat ord_idx, nm] \<notin> from_index [] (Suc ord_idx)"
      using not_in_from_index[of ord_idx "Suc ord_idx" "[]"] by simp
    from loop2_body_content[OF body] 0 show ?thesis
      by (auto simp: keeps_content[OF kept out])
  next
    case (Suc k')
    with Cons.prems(2) have "k' < length rest" by simp
    from Cons.IH[OF rest this] Suc show ?thesis by simp
  qed
qed

lemma loop2_returned:
  "loop2 env chunks orca_text slurm_text cleanup_text ord_idx indices w = (Inr (Some code), w')
     \<Longrightarrow> code = 2"
proof (induction indices arbitrary: ord_idx w)
  case Nil
  then show ?case by (simp add: succeed_def)
next
  case (Cons geom_idx rest)
  from Cons.prems obtain r w1 where
    body: "loop2_body env chunks orca_text slurm_text cleanup_text ord_idx geom_idx w = (Inr r, w1)"
    and rest: "(case r of Some c \<Rightarrow> succeed (Some c)
                | None \<Rightarrow> loop2 env chunks orca_text slurm_text cleanup_text (Suc ord_idx) rest) w1
               = (Inr (Some code), w')"
    by (auto elim!: and_then_Inr)
  show ?case
  proof (cases r)
    case None
    with rest Cons.IH show ?thesis by simp
  next
    case (Some c)
    with rest have "c = code" by (simp add: succeed_def)
    with Some body loop2_body_returned show ?thesis by blast
  qed
qed

section \<open>The second tool as a whole\<close>

lemma and_then_read_arg:
  "and_then (read_arg_text_or_file env val) f w =
     (if unreadable env (files w) val then (Inl OSError, w)
      else f (resolved_text env (files w) val) w)"
  by (simp add: and_then_def read_arg_result)

lemma files_snd_print: "files (snd (print m w)) = files w"
  by (simp add: print_def)

lemma main2_raises:
  assumes "refuses env Stat (files w) (to_path env (geometry_list a))"
  shows "main2 env a w = Some (Inl OSError, w)"
  using assms by (simp add: main2_def Let_def is_file_result)

lemma main2_read_raises:
  assumes nl: "\<not> refuses env Stat (files w) (to_path env (geometry_list a))"
    and geom: "file_content (files w) (to_path env (geometry_list a)) = Some raw"
    and valid: "0 < lines_per_geometry a" "0 \<le> first a" "\<forall>p. prune a = Some p \<longrightarrow> 0 < p"
    and nr: "refuses env Open_read (files w) (to_path env (geometry_list a))"
  shows "main2 env a w = Some (Inl OSError, w)"
proof -
  have isf: "is_file env (to_path env (geometry_list a)) w = (Inr True, w)"
    using nl geom by (simp add: is_file_result)
  have pr: "(prune a \<noteq> None \<and> the (prune a) \<le> 0) = False"
    using valid(3) by auto
  show ?thesis
    unfolding main2_def Let_def pr
    using valid(1,2)
    by (simp add: isf read_text_raises[OF nr])
qed

lemma main2_rejects:
  assumes "fst (is_file env (to_path env (geometry_list a)) w) = Inr found"
    and "\<not> found \<or> lines_per_geometry a \<le> 0
             \<or> first a < 0 \<or> (\<exists>p. prune a = Some p \<and> p \<le> 0)"
  shows "\<exists>w'. main2 env a w = Some (Inr 2, w') \<and> files w' = files w"
proof -
  from assms(1) have "is_file env (to_path env (geometry_list a)) w = (Inr found, w)"
    by (auto simp: is_file_result split: if_splits)
  with assms(2) show ?thesis
    by (auto simp: main2_def Let_def and_then_def print_def succeed_def)
qed

lemma main2_accepts:
  assumes nl: "\<not> refuses env Stat (files w) (to_path env (geometry_list a))"
    and nr: "\<not> refuses env Open_read (files w) (to_path env (geometry_list a))"
    and geom: "file_content (files w) (to_path env (geometry_list a)) = Some raw"
    and valid: "0 < lines_per_geometry a" "0 \<le> first a" "\<forall>p. prune a = Some p \<longrightarrow> 0 < p"
    and ch: "chunk_lines2 (splitlines env raw) (lines_per_geometry a) = Inr chunks"
  shows "main2 env a w =
     (if chunks = [] then Some (and_then (print Nothing_to_do) (\<lambda>_. succeed 0) w)
      else
        (let remainder_lines = int (length (splitlines env raw))
                                 - int (length chunks) * lines_per_geometry a;
             w2 = (if remainder_lines \<noteq> 0
                   then snd (print (Warning_ignoring remainder_lines) w) else w)
         in case select_indices (int (length chunks)) (first a) (prune a) of
              None \<Rightarrow> None
            | Some (Inl e) \<Rightarrow>
                if e = ValueError
                then Some (and_then (print Error_value) (\<lambda>_. succeed 2) w2)
                else Some (Inl e, w2)
            | Some (Inr indices) \<Rightarrow>
                if indices = [] then
                  Some (and_then (print Selection_empty) (\<lambda>_. succeed 0) w2)
                else
                  Some (
                    and_then (read_arg_text_or_file env (orca_input a)) (\<lambda>orca_text.
                    and_then (read_arg_text_or_file env (slurm_input a)) (\<lambda>slurm_text.
                    and_then (loop2 env chunks orca_text slurm_text
                                build_cleanup_script2 1 indices) (\<lambda>r.
                       case r of
                         Some code \<Rightarrow> succeed code
                       | None \<Rightarrow>
                           and_then (print (Done_created (length indices) (length chunks)))
                             (\<lambda>_. succeed 0)))) w2)))"
proof -
  have isf: "is_file env (to_path env (geometry_list a)) w = (Inr True, w)"
    using nl geom by (simp add: is_file_result)
  have pr: "(prune a \<noteq> None \<and> the (prune a) \<le> 0) = False"
    using valid(3) by auto
  show ?thesis
    unfolding main2_def Let_def pr
    using valid(1,2)
    by (simp add: isf read_text_content[OF nr geom] ch)
qed

lemma main2_no_chunks:
  assumes "\<not> refuses env Stat (files w) (to_path env (geometry_list a))"
    and "\<not> refuses env Open_read (files w) (to_path env (geometry_list a))"
    and "file_content (files w) (to_path env (geometry_list a)) = Some raw"
    and "0 < lines_per_geometry a" "0 \<le> first a" "\<forall>p. prune a = Some p \<longrightarrow> 0 < p"
    and "chunk_lines2 (splitlines env raw) (lines_per_geometry a) = Inr []"
  shows "\<exists>w'. main2 env a w = Some (Inr 0, w') \<and> files w' = files w"
  unfolding main2_accepts[OF assms]
  by (simp add: and_then_def print_def succeed_def)


lemma main2_written:
  assumes run: "main2 env a w = Some (Inr 0, w')"
    and geom: "file_content (files w) (to_path env (geometry_list a)) = Some raw"
    and ch: "chunk_lines2 (splitlines env raw) (lines_per_geometry a) = Inr chunks"
    and sel: "select_indices (int (length chunks)) (first a) (prune a) = Some (Inr indices)"
    and k: "k < length indices"
  shows "\<exists>chunk. py_index chunks (indices ! k) = Inr chunk
       \<and> file_content (files w') [str_nat (Suc k), ''geometry.xyz'']
           = Some (join ''\<newline>'' chunk @ ''\<newline>'')
       \<and> file_content (files w') [str_nat (Suc k), ''orca6.inp'']
           = Some (resolved_text env (files w) (orca_input a))
       \<and> file_content (files w') [str_nat (Suc k), ''job.slurm'']
           = Some (resolved_text env (files w) (slurm_input a))
       \<and> file_content (files w') [str_nat (Suc k), ''cleanup.sh'']
           = Some build_cleanup_script2"
proof -
  have nl: "\<not> refuses env Stat (files w) (to_path env (geometry_list a))"
    using run main2_raises[where env = env and a = a and w = w] by auto
  have valid: "0 < lines_per_geometry a \<and> 0 \<le> first a \<and> (\<forall>p. prune a = Some p \<longrightarrow> 0 < p)"
  proof (rule ccontr)
    assume "\<not> ?thesis"
    then have "lines_per_geometry a \<le> 0 \<or> first a < 0 \<or> (\<exists>p. prune a = Some p \<and> p \<le> 0)"
      by (auto simp: not_less)
    moreover have "fst (is_file env (to_path env (geometry_list a)) w) = Inr True"
      using nl geom by (simp add: is_file_result)
    ultimately obtain w'' where "main2 env a w = Some (Inr 2, w'')"
      using main2_rejects[where env = env and a = a and w = w and found = True] by blast
    with run show False by simp
  qed
  have nr: "\<not> refuses env Open_read (files w) (to_path env (geometry_list a))"
  proof
    assume "refuses env Open_read (files w) (to_path env (geometry_list a))"
    with valid have "main2 env a w = Some (Inl OSError, w)"
      using main2_read_raises[OF nl geom] by blast
    with run show False by simp
  qed
  have ne: "indices \<noteq> []" using k by auto
  have cne: "chunks \<noteq> []"
  proof
    assume "chunks = []"
    with sel have "indices = []" by (simp add: select_indices_def)
    with ne show False by simp
  qed
  let ?rem = "int (length (splitlines env raw)) - int (length chunks) * lines_per_geometry a"
  let ?w2 = "if ?rem \<noteq> 0 then snd (print (Warning_ignoring ?rem) w) else w"
  have f2: "files ?w2 = files w" by (simp add: print_def)
  let ?o = "resolved_text env (files w) (orca_input a)"
  let ?s = "resolved_text env (files w) (slurm_input a)"
  have "main2 env a w = Some (
          if unreadable env (files w) (orca_input a) then (Inl OSError, ?w2)
          else if unreadable env (files w) (slurm_input a) then (Inl OSError, ?w2)
          else
          and_then (loop2 env chunks ?o ?s build_cleanup_script2 1 indices) (\<lambda>r.
             case r of
               Some code \<Rightarrow> succeed code
             | None \<Rightarrow> and_then (print (Done_created (length indices) (length chunks)))
                         (\<lambda>_. succeed 0)) ?w2)"
    using valid main2_accepts[OF nl nr geom _ _ _ ch] cne ne
    by (simp add: sel Let_def and_then_read_arg files_snd_print)
  with run have "and_then (loop2 env chunks ?o ?s build_cleanup_script2 1 indices) (\<lambda>r.
             case r of
               Some code \<Rightarrow> succeed code
             | None \<Rightarrow> and_then (print (Done_created (length indices) (length chunks)))
                         (\<lambda>_. succeed 0)) ?w2 = (Inr (0::int), w')"
    by (simp split: if_splits)
  then obtain r w3 where loop: "loop2 env chunks ?o ?s build_cleanup_script2 1 indices ?w2 = (Inr r, w3)"
    and fin: "(case r of Some code \<Rightarrow> succeed code
               | None \<Rightarrow> and_then (print (Done_created (length indices) (length chunks)))
                         (\<lambda>_. succeed 0)) w3 = (Inr (0::int), w')"
    by (rule and_then_Inr)
  have "r = None"
  proof (cases r)
    case None
    then show ?thesis .
  next
    case (Some code)
    with loop have "code = 2" using loop2_returned by blast
    with Some fin show ?thesis by (simp add: succeed_def)
  qed
  with fin have "files w' = files w3"
    by (auto simp: and_then_def print_def succeed_def)
  with loop2_content[OF loop[unfolded \<open>r = None\<close>] k] show ?thesis by simp
qed

section \<open>What a run leaves in the job directories\<close>

text \<open>
  C5. After a run of either tool that ends with status 0 (the first tool not in dry-run
  mode), every selected chunk's directory holds a \<open>geometry.xyz\<close> whose content is the
  chunk's lines joined with newlines and followed by one more newline, and an
  \<open>orca6.inp\<close> and a \<open>job.slurm\<close> whose contents are the resolved template texts,
  unchanged and the same in every directory.
\<close>

theorem templates_written:
  "(fst (main1 env a w) = Inr 0 \<and> \<not> dry_run a
      \<and> fst (read_text env (to_path env (geometry_list a)) w) = Inr raw
      \<and> chunk_lines1 (splitlines env raw) (lines_per_geometry a) = Inr chunks
      \<and> fst (read_arg_text_or_file env (orca_input a) w) = Inr orca_text
      \<and> fst (read_arg_text_or_file env (slurm_input a) w) = Inr slurm_text
      \<and> k < length chunks
    \<longrightarrow> file_content (files (snd (main1 env a w)))
            (to_path env (out a) @ [str_nat (Suc k), ''geometry.xyz''])
          = Some (join ''\<newline>'' (chunks ! k) @ ''\<newline>'')
      \<and> file_content (files (snd (main1 env a w)))
            (to_path env (out a) @ [str_nat (Suc k), ''orca6.inp'']) = Some orca_text
      \<and> file_content (files (snd (main1 env a w)))
            (to_path env (out a) @ [str_nat (Suc k), ''job.slurm'']) = Some slurm_text)
   \<and> (map_option fst (main2 env b w) = Some (Inr 0)
      \<and> fst (read_text env (to_path env (geometry_list b)) w) = Inr raw
      \<and> chunk_lines2 (splitlines env raw) (lines_per_geometry b) = Inr chunks
      \<and> select_indices (int (length chunks)) (first b) (prune b) = Some (Inr indices)
      \<and> fst (read_arg_text_or_file env (orca_input b) w) = Inr orca_text
      \<and> fst (read_arg_text_or_file env (slurm_input b) w) = Inr slurm_text
      \<and> k < length indices
    \<longrightarrow> (\<exists>w' chunk. map_option snd (main2 env b w) = Some w'
          \<and> py_index chunks (indices ! k) = Inr chunk
          \<and> file_content (files w') [str_nat (Suc k), ''geometry.xyz'']
              = Some (join ''\<newline>'' chunk @ ''\<newline>'')
          \<and> file_content (files w') [str_nat (Suc k), ''orca6.inp''] = Some orca_text
          \<and> file_content (files w') [str_nat (Suc k), ''job.slurm''] = Some slurm_text))"
proof (rule conjI; rule impI)
  assume h: "fst (main1 env a w) = Inr 0 \<and> \<not> dry_run a
      \<and> fst (read_text env (to_path env (geometry_list a)) w) = Inr raw
      \<and> chunk_lines1 (splitlines env raw) (lines_per_geometry a) = Inr chunks
      \<and> fst (read_arg_text_or_file env (orca_input a) w) = Inr orca_text
      \<and> fst (read_arg_text_or_file env (slurm_input a) w) = Inr slurm_text
      \<and> k < length chunks"
  then have run: "main1 env a w = (Inr 0, snd (main1 env a w))"
    by (metis prod.collapse)
  from h have "fst (read_text env (to_path env (geometry_list a)) w) = Inr raw" by simp
  then have geom: "file_content (files w) (to_path env (geometry_list a)) = Some raw"
    by (simp add: read_text_fst)
  from h have texts: "orca_text = resolved_text env (files w) (orca_input a)"
      "slurm_text = resolved_text env (files w) (slurm_input a)"
    by (simp_all add: read_arg_fst)
  from main1_written[OF run _ geom, of chunks k] h texts
  show "file_content (files (snd (main1 env a w)))
            (to_path env (out a) @ [str_nat (Suc k), ''geometry.xyz''])
          = Some (join ''\<newline>'' (chunks ! k) @ ''\<newline>'')
      \<and> file_content (files (snd (main1 env a w)))
            (to_path env (out a) @ [str_nat (Suc k), ''orca6.inp'']) = Some orca_text
      \<and> file_content (files (snd (main1 env a w)))
            (to_path env (out a) @ [str_nat (Suc k), ''job.slurm'']) = Some slurm_text"
    by simp
next
  assume h: "map_option fst (main2 env b w) = Some (Inr 0)
      \<and> fst (read_text env (to_path env (geometry_list b)) w) = Inr raw
      \<and> chunk_lines2 (splitlines env raw) (lines_per_geometry b) = Inr chunks
      \<and> select_indices (int (length chunks)) (first b) (prune b) = Some (Inr indices)
      \<and> fst (read_arg_text_or_file env (orca_input b) w) = Inr orca_text
      \<and> fst (read_arg_text_or_file env (slurm_input b) w) = Inr slurm_text
      \<and> k < length indices"
  then obtain w' where run: "main2 env b w = Some (Inr 0, w')"
    by (cases "main2 env b w") auto
  from h have "fst (read_text env (to_path env (geometry_list b)) w) = Inr raw" by simp
  then have geom: "file_content (files w) (to_path env (geometry_list b)) = Some raw"
    by (simp add: read_text_fst)
  from h have texts: "orca_text = resolved_text env (files w) (orca_input b)"
      "slurm_text = resolved_text env (files w) (slurm_input b)"
    by (simp_all add: read_arg_fst)
  from main2_written[OF run geom, of chunks indices k] h texts run
  show "\<exists>w' chunk. map_option snd (main2 env b w) = Some w'
          \<and> py_index chunks (indices ! k) = Inr chunk
          \<and> file_content (files w') [str_nat (Suc k), ''geometry.xyz'']
              = Some (join ''\<newline>'' chunk @ ''\<newline>'')
          \<and> file_content (files w') [str_nat (Suc k), ''orca6.inp''] = Some orca_text
          \<and> file_content (files w') [str_nat (Suc k), ''job.slurm''] = Some slurm_text"
    by auto
qed

lemma create_run: "fst (main1 posix_env create_args fresh_world) = Inr 0"
  by code_simp

lemma prune_run: "map_option fst (main2 posix_env prune_args fresh_world) = Some (Inr 0)"
  by code_simp

lemma fresh_lines:
  "splitlines posix_env ''a\<newline>b\<newline>c\<newline>d\<newline>e\<newline>'' = [''a'', ''b'', ''c'', ''d'', ''e'']"
  by code_simp

lemma fresh_chunks1:
  "chunk_lines1 [''a'', ''b'', ''c'', ''d'', ''e''] 2 = Inr [[''a'', ''b''], [''c'', ''d'']]"
  by code_simp

lemma fresh_chunks2:
  "chunk_lines2 [''a'', ''b'', ''c'', ''d'', ''e''] 1 = Inr [[''a''], [''b''], [''c''], [''d''], [''e'']]"
  by code_simp

lemma fresh_selection: "select_indices 5 1 (Some 2) = Some (Inr [0, 1, 3])"
  by code_simp

lemma fresh_templates:
  "fst (read_arg_text_or_file posix_env ''! HF'' fresh_world) = Inr ''! HF''"
  "fst (read_arg_text_or_file posix_env ''sbatch'' fresh_world) = Inr ''sbatch''"
  by code_simp+

lemma create_args_fields:
  "\<not> dry_run create_args"
  "to_path posix_env (geometry_list create_args) = [''geoms.xyz'']"
  "to_path posix_env (out create_args) = [''runs'']"
  "lines_per_geometry create_args = 2"
  "orca_input create_args = ''! HF''"
  "slurm_input create_args = ''sbatch''"
  by code_simp+

lemma prune_args_fields:
  "to_path posix_env (geometry_list prune_args) = [''geoms.xyz'']"
  "lines_per_geometry prune_args = 1"
  "first prune_args = 1"
  "prune prune_args = Some 2"
  "orca_input prune_args = ''! HF''"
  "slurm_input prune_args = ''sbatch''"
  by code_simp+

lemma fresh_geometry_path:
  "fst (read_text posix_env [''geoms.xyz''] fresh_world) = Inr ''a\<newline>b\<newline>c\<newline>d\<newline>e\<newline>''"
  by code_simp

theorem templates_written_witness:
  "(fst (main1 posix_env create_args fresh_world) = Inr 0 \<and> \<not> dry_run create_args
     \<and> fst (read_text posix_env (to_path posix_env (geometry_list create_args)) fresh_world)
         = Inr ''a\<newline>b\<newline>c\<newline>d\<newline>e\<newline>''
     \<and> chunk_lines1 (splitlines posix_env ''a\<newline>b\<newline>c\<newline>d\<newline>e\<newline>'')
           (lines_per_geometry create_args) = Inr [[''a'', ''b''], [''c'', ''d'']]
     \<and> (1::nat) < length [[''a'', ''b''], [''c'', ''d'']]
     \<and> file_content (files (snd (main1 posix_env create_args fresh_world)))
           [''runs'', ''2'', ''geometry.xyz''] = Some ''c\<newline>d\<newline>''
     \<and> file_content (files (snd (main1 posix_env create_args fresh_world)))
           [''runs'', ''2'', ''orca6.inp''] = Some ''! HF''
     \<and> file_content (files (snd (main1 posix_env create_args fresh_world)))
           [''runs'', ''2'', ''job.slurm''] = Some ''sbatch'')
   \<and> (map_option fst (main2 posix_env prune_args fresh_world) = Some (Inr 0)
     \<and> select_indices 5 (first prune_args) (prune prune_args) = Some (Inr [0, 1, 3])
     \<and> (\<exists>w'. map_option snd (main2 posix_env prune_args fresh_world) = Some w'
           \<and> file_content (files w') [''3'', ''geometry.xyz''] = Some ''d\<newline>''
           \<and> file_content (files w') [''3'', ''orca6.inp''] = Some ''! HF''
           \<and> file_content (files w') [''3'', ''job.slurm''] = Some ''sbatch''))"
proof -
  have s2: "str_nat (Suc (Suc 0)) = ''2''" and s3: "str_nat (Suc (Suc (Suc 0))) = ''3''"
    by code_simp+
  have ix: "py_index [[''a''], [''b''], [''c''], [''d''], [''e'']] 3 = Inr [''d'']"
    by code_simp
  have t1: "file_content (files (snd (main1 posix_env create_args fresh_world)))
           [''runs'', ''2'', ''geometry.xyz''] = Some ''c\<newline>d\<newline>''
     \<and> file_content (files (snd (main1 posix_env create_args fresh_world)))
           [''runs'', ''2'', ''orca6.inp''] = Some ''! HF''
     \<and> file_content (files (snd (main1 posix_env create_args fresh_world)))
           [''runs'', ''2'', ''job.slurm''] = Some ''sbatch''"
    using templates_written[where env = posix_env and a = create_args and w = fresh_world
        and raw = "''a\<newline>b\<newline>c\<newline>d\<newline>e\<newline>''" and chunks = "[[''a'', ''b''], [''c'', ''d'']]"
        and orca_text = "''! HF''" and slurm_text = "''sbatch''" and k = 1, THEN conjunct1]
      create_run fresh_geometry_path fresh_lines fresh_chunks1 fresh_templates
    by (simp add: create_args_fields s2)
  have t2: "\<exists>w'. map_option snd (main2 posix_env prune_args fresh_world) = Some w'
           \<and> file_content (files w') [''3'', ''geometry.xyz''] = Some ''d\<newline>''
           \<and> file_content (files w') [''3'', ''orca6.inp''] = Some ''! HF''
           \<and> file_content (files w') [''3'', ''job.slurm''] = Some ''sbatch''"
    using templates_written[where env = posix_env and b = prune_args and w = fresh_world
        and raw = "''a\<newline>b\<newline>c\<newline>d\<newline>e\<newline>''"
        and chunks = "[[''a''], [''b''], [''c''], [''d''], [''e'']]"
        and indices = "[0, 1, 3]"
        and orca_text = "''! HF''" and slurm_text = "''sbatch''" and k = 2, THEN conjunct2]
      prune_run fresh_geometry_path fresh_lines fresh_chunks2 fresh_selection fresh_templates ix
    by (simp add: prune_args_fields s3 numeral_2_eq_2)
  show ?thesis
    using t1 t2 create_run prune_run fresh_geometry_path fresh_lines fresh_chunks1 fresh_selection
    by (simp add: create_args_fields prune_args_fields)
qed

section \<open>The cleanup script\<close>

lemma cleanup_tokens1: "shell_tokens build_cleanup_script1 = shell_tokens spec_cleanup_text"
  by code_simp

lemma cleanup_tokens2: "shell_tokens build_cleanup_script2 = shell_tokens spec_cleanup_text"
  by code_simp

lemma cleanup_differs:
  "build_cleanup_script1 \<noteq> spec_cleanup_text"
  "build_cleanup_script1 \<noteq> spec_cleanup_text @ ''\<newline>''"
  "build_cleanup_script2 \<noteq> spec_cleanup_text"
  "build_cleanup_script2 \<noteq> spec_cleanup_text @ ''\<newline>''"
  "build_cleanup_script1 \<noteq> build_cleanup_script2"
  by code_simp+

text \<open>
  C6, as the specification has it, fails: the \<open>cleanup.sh\<close> that the first tool writes
  is not the text of section 6 (with or without a final newline), and the two tools do
  not write the same string.
\<close>

theorem cleanup_text_counterexample:
  "file_content (files (snd (main1 posix_env create_args fresh_world)))
     [''runs'', ''1'', ''cleanup.sh''] = Some build_cleanup_script1
   \<and> build_cleanup_script1 \<noteq> spec_cleanup_text
   \<and> build_cleanup_script1 \<noteq> spec_cleanup_text @ ''\<newline>''
   \<and> build_cleanup_script2 \<noteq> spec_cleanup_text
   \<and> build_cleanup_script1 \<noteq> build_cleanup_script2"
proof -
  have "file_content (files (snd (main1 posix_env create_args fresh_world)))
          [''runs'', ''1'', ''cleanup.sh''] = Some build_cleanup_script1"
    by code_simp
  then show ?thesis by (simp add: cleanup_differs)
qed

text \<open>
  C6, amended. After a run that ends with status 0 (the first tool not in dry-run mode)
  the \<open>cleanup.sh\<close> of every materialized directory holds the fixed text of the tool's
  own \<open>build_cleanup_script\<close>, whatever the inputs; and each of the two texts agrees
  with the text of section 6 in its shell words once the comment lines are left out.
\<close>

theorem cleanup_script_written:
  "(fst (main1 env a w) = Inr 0 \<and> \<not> dry_run a
      \<and> fst (read_text env (to_path env (geometry_list a)) w) = Inr raw
      \<and> chunk_lines1 (splitlines env raw) (lines_per_geometry a) = Inr chunks
      \<and> k < length chunks
    \<longrightarrow> file_content (files (snd (main1 env a w)))
            (to_path env (out a) @ [str_nat (Suc k), ''cleanup.sh''])
          = Some build_cleanup_script1)
   \<and> (map_option fst (main2 env b w) = Some (Inr 0)
      \<and> fst (read_text env (to_path env (geometry_list b)) w) = Inr raw
      \<and> chunk_lines2 (splitlines env raw) (lines_per_geometry b) = Inr chunks
      \<and> select_indices (int (length chunks)) (first b) (prune b) = Some (Inr indices)
      \<and> k < length indices
    \<longrightarrow> (\<exists>w'. map_option snd (main2 env b w) = Some w'
          \<and> file_content (files w') [str_nat (Suc k), ''cleanup.sh'']
              = Some build_cleanup_script2))
   \<and> shell_tokens build_cleanup_script1 = shell_tokens spec_cleanup_text
   \<and> shell_tokens build_cleanup_script2 = shell_tokens spec_cleanup_text"
proof -
  have one: "file_content (files (snd (main1 env a w)))
            (to_path env (out a) @ [str_nat (Suc k), ''cleanup.sh''])
          = Some build_cleanup_script1"
    if h: "fst (main1 env a w) = Inr 0 \<and> \<not> dry_run a
      \<and> fst (read_text env (to_path env (geometry_list a)) w) = Inr raw
      \<and> chunk_lines1 (splitlines env raw) (lines_per_geometry a) = Inr chunks
      \<and> k < length chunks"
  proof -
    from h have run: "main1 env a w = (Inr 0, snd (main1 env a w))"
      by (metis prod.collapse)
    from h have "fst (read_text env (to_path env (geometry_list a)) w) = Inr raw" by simp
    then have geom: "file_content (files w) (to_path env (geometry_list a)) = Some raw"
      by (simp add: read_text_fst)
    from main1_written[OF run _ geom, of chunks k] h show ?thesis by simp
  qed
  have two: "\<exists>w'. map_option snd (main2 env b w) = Some w'
          \<and> file_content (files w') [str_nat (Suc k), ''cleanup.sh'']
              = Some build_cleanup_script2"
    if h: "map_option fst (main2 env b w) = Some (Inr 0)
      \<and> fst (read_text env (to_path env (geometry_list b)) w) = Inr raw
      \<and> chunk_lines2 (splitlines env raw) (lines_per_geometry b) = Inr chunks
      \<and> select_indices (int (length chunks)) (first b) (prune b) = Some (Inr indices)
      \<and> k < length indices"
  proof -
    from h obtain w' where run: "main2 env b w = Some (Inr 0, w')"
      by (cases "main2 env b w") auto
    from h have "fst (read_text env (to_path env (geometry_list b)) w) = Inr raw" by simp
    then have geom: "file_content (files w) (to_path env (geometry_list b)) = Some raw"
      by (simp add: read_text_fst)
    from main2_written[OF run geom, of chunks indices k] h run show ?thesis by auto
  qed
  from one two cleanup_tokens1 cleanup_tokens2 show ?thesis by blast
qed

theorem cleanup_script_written_witness:
  "(fst (main1 posix_env create_args fresh_world) = Inr 0 \<and> \<not> dry_run create_args
     \<and> fst (read_text posix_env (to_path posix_env (geometry_list create_args)) fresh_world)
         = Inr ''a\<newline>b\<newline>c\<newline>d\<newline>e\<newline>''
     \<and> chunk_lines1 (splitlines posix_env ''a\<newline>b\<newline>c\<newline>d\<newline>e\<newline>'')
           (lines_per_geometry create_args) = Inr [[''a'', ''b''], [''c'', ''d'']]
     \<and> (1::nat) < length [[''a'', ''b''], [''c'', ''d'']]
     \<and> file_content (files (snd (main1 posix_env create_args fresh_world)))
           [''runs'', ''2'', ''cleanup.sh''] = Some build_cleanup_script1)
   \<and> (map_option fst (main2 posix_env prune_args fresh_world) = Some (Inr 0)
     \<and> select_indices 5 (first prune_args) (prune prune_args) = Some (Inr [0, 1, 3])
     \<and> (\<exists>w'. map_option snd (main2 posix_env prune_args fresh_world) = Some w'
           \<and> file_content (files w') [''3'', ''cleanup.sh''] = Some build_cleanup_script2))"
proof -
  have s2: "str_nat (Suc (Suc 0)) = ''2''" and s3: "str_nat (Suc (Suc (Suc 0))) = ''3''"
    by code_simp+
  have t1: "file_content (files (snd (main1 posix_env create_args fresh_world)))
           [''runs'', ''2'', ''cleanup.sh''] = Some build_cleanup_script1"
    using cleanup_script_written[where env = posix_env and a = create_args and w = fresh_world
        and raw = "''a\<newline>b\<newline>c\<newline>d\<newline>e\<newline>''" and chunks = "[[''a'', ''b''], [''c'', ''d'']]"
        and k = 1, THEN conjunct1]
      create_run fresh_geometry_path fresh_lines fresh_chunks1
    by (simp add: create_args_fields s2)
  have t2: "\<exists>w'. map_option snd (main2 posix_env prune_args fresh_world) = Some w'
           \<and> file_content (files w') [''3'', ''cleanup.sh''] = Some build_cleanup_script2"
    using cleanup_script_written[where env = posix_env and b = prune_args and w = fresh_world
        and raw = "''a\<newline>b\<newline>c\<newline>d\<newline>e\<newline>''"
        and chunks = "[[''a''], [''b''], [''c''], [''d''], [''e'']]"
        and indices = "[0, 1, 3]" and k = 2, THEN conjunct2, THEN conjunct1]
      prune_run fresh_geometry_path fresh_lines fresh_chunks2 fresh_selection
    by (simp add: prune_args_fields s3 numeral_2_eq_2)
  show ?thesis
    using t1 t2 create_run prune_run fresh_geometry_path fresh_lines fresh_chunks1 fresh_selection
    by (simp add: create_args_fields prune_args_fields)
qed

section \<open>Dry runs, early exits and directories in use\<close>

text \<open>
  C7 does not hold of the code: with \<open>--dry-run\<close> and an output root that does not exist
  yet, the first tool passes validation, ends with status 0, and has created the output
  root. (\<open>out_root.mkdir\<close> comes before the first test of \<open>args.dry_run\<close>.)
\<close>

theorem dry_run_creates_output_root:
  "dry_run dry_args
   \<and> fst (exists posix_env (to_path posix_env (out dry_args)) fresh_world) = Inr False
   \<and> exit_status (fst (main1 posix_env dry_args fresh_world)) = 0
   \<and> files (snd (main1 posix_env dry_args fresh_world)) = files fresh_world @ [([''runs''], Dir)]
   \<and> fst (is_dir posix_env (to_path posix_env (out dry_args))
            (snd (main1 posix_env dry_args fresh_world))) = Inr True"
  by code_simp

text \<open>
  C9 does not hold of the code: in a directory tree where \<open>runs/1\<close> exists and is not
  empty, the first tool without \<open>--force\<close> raises \<open>RuntimeError\<close> out of \<open>main\<close>, so
  that the process ends with status 1, not 2. It has then written nothing.
\<close>

theorem used_directory_raises:
  "\<not> force create_args
   \<and> fst (is_dir posix_env [''runs'', ''1''] used_world) = Inr True
   \<and> fst (any_iterdir posix_env [''runs'', ''1''] used_world) = Inr True
   \<and> fst (main1 posix_env create_args used_world) = Inl RuntimeError
   \<and> exit_status (fst (main1 posix_env create_args used_world)) = 1
   \<and> files (snd (main1 posix_env create_args used_world)) = files used_world"
  by code_simp

text \<open>What the claim says of the other two cases does hold.\<close>

lemma exists_result:
  "exists env p w =
     (if refuses env Stat (files w) p then (Inl OSError, w)
      else (Inr (lookup (files w) p \<noteq> None), w))"
  by (simp add: exists_def and_then_def stat_result succeed_def)

lemma is_dir_result:
  "is_dir env p w =
     (if refuses env Stat (files w) p then (Inl OSError, w)
      else (Inr (lookup (files w) p = Some Dir), w))"
  by (simp add: is_dir_def and_then_def stat_result succeed_def)

lemma any_iterdir_fst:
  "fst (any_iterdir env p w) = Inr b \<Longrightarrow> any_iterdir env p w = (Inr b, w)"
  using any_iterdir_same[of env p w "fst (any_iterdir env p w)" "snd (any_iterdir env p w)"]
  by (metis prod.collapse)

lemma ensure_dir_refuses:
  assumes "fst (is_dir env p w) = Inr True" "fst (any_iterdir env p w) = Inr True"
  shows "ensure_dir env p False w = (Inl RuntimeError, w)"
proof -
  from assms(1) have d: "\<not> refuses env Stat (files w) p" "lookup (files w) p = Some Dir"
    by (auto simp: is_dir_result split: if_splits)
  from assms(2) have "any_iterdir env p w = (Inr True, w)" by (rule any_iterdir_fst)
  with d show ?thesis
    by (simp add: ensure_dir_def and_then_def exists_result is_dir_result raise_def)
qed

lemma ensure_dir_force:
  assumes "fst (is_dir env p w) = Inr True" "fst (any_iterdir env p w) = Inr used"
  shows "ensure_dir env p True w = (Inr (), w)"
proof -
  from assms(1) have d: "\<not> refuses env Stat (files w) p" "lookup (files w) p = Some Dir"
    by (auto simp: is_dir_result split: if_splits)
  from assms(2) have "any_iterdir env p w = (Inr used, w)" by (rule any_iterdir_fst)
  with d show ?thesis
    by (simp add: ensure_dir_def and_then_def exists_result is_dir_result succeed_def)
qed

lemma loop2_body_refuses:
  assumes "fst (is_dir env [str_nat ord_idx] w) = Inr True"
    "fst (any_iterdir env [str_nat ord_idx] w) = Inr True"
  shows "fst (loop2_body env chunks orca_text slurm_text cleanup_text ord_idx geom_idx w)
           = Inr (Some 2)
       \<and> files (snd (loop2_body env chunks orca_text slurm_text cleanup_text ord_idx geom_idx w))
           = files w"
proof -
  from assms(1) have d: "\<not> refuses env Stat (files w) [str_nat ord_idx]"
      "lookup (files w) [str_nat ord_idx] = Some Dir"
    by (auto simp: is_dir_result split: if_splits)
  from assms(2) have l: "\<not> refuses env Listdir (files w) [str_nat ord_idx]"
    by (auto simp: any_iterdir_def raise_def split: if_splits)
  from assms(2) have "any_iterdir env [str_nat ord_idx] w = (Inr True, w)"
    by (rule any_iterdir_fst)
  with d l show ?thesis
    by (simp add: loop2_body_unfold and_then_def print_def succeed_def)
qed

lemma used_directory_second_tool:
  "map_option (exit_status \<circ> fst) (main2 posix_env prune_args used_world) = Some 2
   \<and> map_option (files \<circ> snd) (main2 posix_env prune_args used_world) = Some (files used_world)"
  by code_simp

lemma used_directory_force:
  "exit_status (fst (main1 posix_env (create_args\<lparr>force := True\<rparr>) used_world)) = 0
   \<and> file_content (files (snd (main1 posix_env (create_args\<lparr>force := True\<rparr>) used_world)))
        [''runs'', ''1'', ''geometry.xyz''] = Some ''a\<newline>b\<newline>''
   \<and> file_content (files (snd (main1 posix_env (create_args\<lparr>force := True\<rparr>) used_world)))
        [''runs'', ''1'', ''orca6.out''] = Some ''done''"
  by code_simp




end
